theory Spec2Isabelle
  imports Complex_Main
begin

section \<open>Python values shared by the two modules\<close>

text \<open>Exceptions the two source files can raise, as values.\<close>

datatype error = AssertionError | NotImplementedError | IndexError | AttributeError
  | TypeError | ValueError | KeyError | RuntimeError

text \<open>
  Decimal rendering of an integer inside an f-string (\<^verbatim>\<open>f"{block_idx}"\<close>).
\<close>

definition digit_char :: "nat \<Rightarrow> char" where
  "digit_char d = char_of (48 + d)"

fun str_nat :: "nat \<Rightarrow> string" where
  "str_nat n = (if n < 10 then [digit_char n] else str_nat (n div 10) @ [digit_char (n mod 10)])"

declare str_nat.simps [simp del]

definition str_int :: "int \<Rightarrow> string" where
  "str_int i = (if i < 0 then CHR ''-'' # str_nat (nat (- i)) else str_nat (nat i))"

section \<open>autoencoder\_transformer.py: the data\<close>

text \<open>
  \<^verbatim>\<open>SrcNode\<close> and \<^verbatim>\<open>DestNode\<close> are built with keyword arguments; the
  attributes a call leaves out are \<open>None\<close>.
\<close>

record node =
  name :: string
  module_name_attr :: string
  layer :: nat
  idx :: nat
  head_dim :: "nat option"
  head_idx :: "nat option"
  weight :: "string option"
  weight_head_dim :: "nat option"

type_synonym SrcNode = node
type_synonym DestNode = node

text \<open>
  \<^verbatim>\<open>sae.latent_total_act\<close>: one total per latent, or one row of totals per
  sequence position when the counters were reset with a \<^verbatim>\<open>seq_len\<close>.
\<close>

datatype tensor = Vec "real list" | Mat "real list list"

record SparseAutoencoder =
  n_latents :: nat
  latent_total_act :: tensor

text \<open>What an attribute of a transformer block that names a hook can hold.\<close>

datatype hook = HookPoint | Autoencoder SparseAutoencoder | StrValue string

record TransformerBlock =
  mlp_hook_post :: hook
  hook_mlp_out :: hook

record config =
  n_layers :: nat
  n_heads :: nat
  use_attn_result :: bool
  use_attn_in :: bool
  use_split_qkv_input :: bool
  use_hook_mlp_in :: bool
  parallel_attn_mlp :: bool

record HookedTransformer =
  cfg :: config
  blocks :: "TransformerBlock list"

text \<open>
  A \<^verbatim>\<open>t.nn.Module\<close> handed to the constructor of \<^verbatim>\<open>AutoencoderTransformer\<close>:
  \<^verbatim>\<open>isinstance(wrapped_model, PatchableModel)\<close> tells a \<^verbatim>\<open>PatchableModel\<close>,
  which carries its own \<^verbatim>\<open>wrapped_model\<close>, from every other module.
\<close>

datatype 'm nn_module = PatchableModel (pm_wrapped_model: 'm) | OtherModule 'm

record 'm AutoencoderTransformer =
  wrapped_model :: 'm
  sparse_autoencoders :: "SparseAutoencoder list"

section \<open>AutoencoderTransformer: constructor and delegation\<close>

definition init :: "'m nn_module \<Rightarrow> SparseAutoencoder list \<Rightarrow> 'm AutoencoderTransformer" where
  "init wm saes =
     (case wm of
        PatchableModel inner \<Rightarrow> \<lparr>wrapped_model = inner, sparse_autoencoders = saes\<rparr>
      | OtherModule m \<Rightarrow> \<lparr>wrapped_model = m, sparse_autoencoders = saes\<rparr>)"

text \<open>
  Every delegating method calls the method of the same name on \<^verbatim>\<open>self.wrapped_model\<close>;
  that method of the wrapped module is the first argument here.
\<close>

definition forward :: "('m \<Rightarrow> 'a \<Rightarrow> 'b) \<Rightarrow> 'm AutoencoderTransformer \<Rightarrow> 'a \<Rightarrow> 'b" where
  "forward call self args = call (wrapped_model self) args"

definition run_with_cache :: "('m \<Rightarrow> 'a \<Rightarrow> 'b) \<Rightarrow> 'm AutoencoderTransformer \<Rightarrow> 'a \<Rightarrow> 'b" where
  "run_with_cache m_run_with_cache self args = m_run_with_cache (wrapped_model self) args"

definition add_hook :: "('m \<Rightarrow> 'a \<Rightarrow> 'b) \<Rightarrow> 'm AutoencoderTransformer \<Rightarrow> 'a \<Rightarrow> 'b" where
  "add_hook m_add_hook self args = m_add_hook (wrapped_model self) args"

definition cfg_property :: "('m \<Rightarrow> 'c) \<Rightarrow> 'm AutoencoderTransformer \<Rightarrow> 'c" where
  "cfg_property m_cfg self = m_cfg (wrapped_model self)"

definition tokenizer :: "('m \<Rightarrow> 'c) \<Rightarrow> 'm AutoencoderTransformer \<Rightarrow> 'c" where
  "tokenizer m_tokenizer self = m_tokenizer (wrapped_model self)"

definition input_to_embed :: "('m \<Rightarrow> 'c) \<Rightarrow> 'm AutoencoderTransformer \<Rightarrow> 'c" where
  "input_to_embed m_input_to_embed self = m_input_to_embed (wrapped_model self)"

definition blocks_property :: "('m \<Rightarrow> 'c) \<Rightarrow> 'm AutoencoderTransformer \<Rightarrow> 'c" where
  "blocks_property m_blocks self = m_blocks (wrapped_model self)"

definition to_tokens :: "('m \<Rightarrow> 'a \<Rightarrow> 'b) \<Rightarrow> 'm AutoencoderTransformer \<Rightarrow> 'a \<Rightarrow> 'b" where
  "to_tokens m_to_tokens self args = m_to_tokens (wrapped_model self) args"

definition to_str_tokens :: "('m \<Rightarrow> 'a \<Rightarrow> 'b) \<Rightarrow> 'm AutoencoderTransformer \<Rightarrow> 'a \<Rightarrow> 'b" where
  "to_str_tokens m_to_str_tokens self args = m_to_str_tokens (wrapped_model self) args"

definition to_string :: "('m \<Rightarrow> 'a \<Rightarrow> 'b) \<Rightarrow> 'm AutoencoderTransformer \<Rightarrow> 'a \<Rightarrow> 'b" where
  "to_string m_to_string self args = m_to_string (wrapped_model self) args"

definition str_method :: "('m \<Rightarrow> string) \<Rightarrow> 'm AutoencoderTransformer \<Rightarrow> string" where
  "str_method m_str self = m_str (wrapped_model self)"

definition repr_method :: "('m \<Rightarrow> string) \<Rightarrow> 'm AutoencoderTransformer \<Rightarrow> string" where
  "repr_method m_repr self = m_repr (wrapped_model self)"

section \<open>factorized\_src\_nodes and factorized\_dest\_nodes\<close>

text \<open>
  The two \<^verbatim>\<open>itertools.count\<close> iterators and the nodes added so far, in the order
  of the \<^verbatim>\<open>nodes.add\<close> calls.
\<close>

record enum_state =
  layers :: nat
  idxs :: nat
  nodes :: "node list"

definition add_node :: "enum_state \<Rightarrow> (nat \<Rightarrow> node) \<Rightarrow> enum_state" where
  "add_node st mk = st\<lparr>idxs := Suc (idxs st), nodes := nodes st @ [mk (idxs st)]\<rparr>"

definition resid_start :: "nat \<Rightarrow> nat \<Rightarrow> SrcNode" where
  "resid_start l i =
     \<lparr>name = ''Resid Start'', module_name_attr = ''blocks.0.hook_resid_pre'', layer = l, idx = i,
      head_dim = None, head_idx = None, weight = Some ''embed.W_E'', weight_head_dim = None\<rparr>"

definition attn_src_node :: "nat \<Rightarrow> nat \<Rightarrow> nat \<Rightarrow> nat \<Rightarrow> SrcNode" where
  "attn_src_node block_idx h l i =
     \<lparr>name = ''A'' @ str_nat block_idx @ ''.'' @ str_nat h,
      module_name_attr = ''blocks.'' @ str_nat block_idx @ ''.attn.hook_result'',
      layer = l, idx = i, head_dim = Some 2, head_idx = Some h,
      weight = Some (''blocks.'' @ str_nat block_idx @ ''.attn.W_O''),
      weight_head_dim = Some 0\<rparr>"

definition latent_src_node :: "nat \<Rightarrow> nat \<Rightarrow> nat \<Rightarrow> nat \<Rightarrow> SrcNode" where
  "latent_src_node block_idx k l i =
     \<lparr>name = ''MLP '' @ str_nat block_idx @ '' Latent '' @ str_nat k,
      module_name_attr = ''blocks.'' @ str_nat block_idx @ ''.hook_mlp_out.latent_outs'',
      layer = l, idx = i, head_dim = Some 2, head_idx = Some k,
      weight = Some (''blocks.'' @ str_nat block_idx @ ''.hook_mlp_out.decoder.weight''),
      weight_head_dim = Some 0\<rparr>"

text \<open>One pass of the body of \<^verbatim>\<open>for block_idx in range(model.cfg.n_layers)\<close>.\<close>

definition src_block :: "HookedTransformer \<Rightarrow> enum_state \<Rightarrow> nat \<Rightarrow> error + enum_state" where
  "src_block m st block_idx =
     (let l = layers st;
          st1 = st\<lparr>layers := Suc l\<rparr>;
          st2 = foldl (\<lambda>s h. add_node s (attn_src_node block_idx h l)) st1 [0..<n_heads (cfg m)];
          l' = (if parallel_attn_mlp (cfg m) then l else layers st2);
          st3 = (if parallel_attn_mlp (cfg m) then st2 else st2\<lparr>layers := Suc (layers st2)\<rparr>)
      in if length (blocks m) \<le> block_idx then Inl IndexError
         else case hook_mlp_out (blocks m ! block_idx) of
                Autoencoder sae \<Rightarrow>
                  Inr (foldl (\<lambda>s k. add_node s (latent_src_node block_idx k l')) st3
                         [0..<n_latents sae])
              | _ \<Rightarrow> Inl AttributeError)"

fun for_each :: "('s \<Rightarrow> 'x \<Rightarrow> error + 's) \<Rightarrow> 'x list \<Rightarrow> 's \<Rightarrow> error + 's" where
  "for_each body [] st = Inr st"
| "for_each body (x # xs) st =
     (case body st x of Inl e \<Rightarrow> Inl e | Inr st' \<Rightarrow> for_each body xs st')"

text \<open>The nodes in the order they are added to the set.\<close>

definition src_enumeration :: "HookedTransformer AutoencoderTransformer \<Rightarrow> error + SrcNode list" where
  "src_enumeration model =
     (let c = cfg_property cfg model in
      if \<not> use_attn_result c then Inl AssertionError
      else if \<not> use_attn_in c then Inl AssertionError
      else if \<not> use_split_qkv_input c then Inl AssertionError
      else if \<not> use_hook_mlp_in c then Inl AssertionError
      else
        let st0 = \<lparr>layers = 0, idxs = 0, nodes = []\<rparr>;
            st1 = add_node (st0\<lparr>layers := Suc (layers st0)\<rparr>) (resid_start (layers st0))
        in case for_each (src_block (wrapped_model model)) [0..<n_layers c] st1 of
             Inl e \<Rightarrow> Inl e
           | Inr st \<Rightarrow> Inr (nodes st))"

definition factorized_src_nodes :: "HookedTransformer AutoencoderTransformer \<Rightarrow> error + SrcNode set" where
  "factorized_src_nodes model =
     (case src_enumeration model of Inl e \<Rightarrow> Inl e | Inr ns \<Rightarrow> Inr (set ns))"

definition attn_dest_node :: "nat \<Rightarrow> nat \<Rightarrow> nat \<Rightarrow> nat \<Rightarrow> DestNode" where
  "attn_dest_node block_idx h l i =
     \<lparr>name = ''A'' @ str_nat block_idx @ ''.'' @ str_nat h,
      module_name_attr = ''blocks.'' @ str_nat block_idx @ ''.hook_attn_in'',
      layer = l, idx = i, head_dim = Some 2, head_idx = Some h,
      weight = None, weight_head_dim = None\<rparr>"

definition mlp_dest_node :: "nat \<Rightarrow> nat \<Rightarrow> nat \<Rightarrow> DestNode" where
  "mlp_dest_node block_idx l i =
     \<lparr>name = ''MLP '' @ str_nat block_idx,
      module_name_attr = ''blocks.'' @ str_nat block_idx @ ''.hook_mlp_in'',
      layer = l, idx = i, head_dim = None, head_idx = None,
      weight = Some (''blocks.'' @ str_nat block_idx @ ''.mlp.W_in''),
      weight_head_dim = None\<rparr>"

definition resid_end :: "nat \<Rightarrow> nat \<Rightarrow> nat \<Rightarrow> DestNode" where
  "resid_end n l i =
     \<lparr>name = ''Resid End'',
      module_name_attr = ''blocks.'' @ str_int (int n - 1) @ ''.hook_resid_post'',
      layer = l, idx = i, head_dim = None, head_idx = None,
      weight = Some ''unembed.W_U'', weight_head_dim = None\<rparr>"

definition dest_block :: "config \<Rightarrow> enum_state \<Rightarrow> nat \<Rightarrow> error + enum_state" where
  "dest_block c st block_idx =
     (let l = layers st;
          st1 = st\<lparr>layers := Suc l\<rparr>;
          st2 = foldl (\<lambda>s h. add_node s (attn_dest_node block_idx h l)) st1 [0..<n_heads c];
          l' = (if parallel_attn_mlp c then l else layers st2);
          st3 = (if parallel_attn_mlp c then st2 else st2\<lparr>layers := Suc (layers st2)\<rparr>)
      in Inr (add_node st3 (mlp_dest_node block_idx l')))"

definition dest_enumeration :: "HookedTransformer AutoencoderTransformer \<Rightarrow> error + DestNode list" where
  "dest_enumeration model =
     (let c = cfg_property cfg model in
      if \<not> use_attn_result c then Inl AssertionError
      else if \<not> use_attn_in c then Inl AssertionError
      else if \<not> use_hook_mlp_in c then Inl AssertionError
      else
        let st0 = \<lparr>layers = 1, idxs = 0, nodes = []\<rparr>
        in case for_each (dest_block c) [0..<n_layers c] st0 of
             Inl e \<Rightarrow> Inl e
           | Inr st \<Rightarrow>
               Inr (nodes (add_node (st\<lparr>layers := Suc (layers st)\<rparr>)
                             (resid_end (n_layers c) (layers st)))))"

definition factorized_dest_nodes :: "HookedTransformer AutoencoderTransformer \<Rightarrow> error + DestNode set" where
  "factorized_dest_nodes model =
     (case dest_enumeration model of Inl e \<Rightarrow> Inl e | Inr ns \<Rightarrow> Inr (set ns))"


text \<open>
  The configurations the node registry is meant for: the four capability flags are set,
  the model has one block per layer, and every block's \<^verbatim>\<open>hook_mlp_out\<close> is an
  autoencoder with the same number of retained latents.
\<close>

definition valid_configuration :: "HookedTransformer AutoencoderTransformer \<Rightarrow> nat \<Rightarrow> bool" where
  "valid_configuration model latents_per_layer =
     (let m = wrapped_model model; c = cfg m in
      use_attn_result c \<and> use_attn_in c \<and> use_split_qkv_input c \<and> use_hook_mlp_in c
      \<and> length (blocks m) = n_layers c
      \<and> list_all (\<lambda>blk. case hook_mlp_out blk of
                            Autoencoder sae \<Rightarrow> n_latents sae = latents_per_layer
                          | _ \<Rightarrow> False) (blocks m))"

text \<open>
  The invariant of both enumeration loops before block \<open>b\<close>, for the nodes added so
  far and the next value \<open>l\<close> of the layer counter. \<open>A\<close> and \<open>M\<close> give the module
  names of the attention nodes and of the MLP nodes of a block.
\<close>

definition layer_inv ::
  "(nat \<Rightarrow> string) \<Rightarrow> (nat \<Rightarrow> string) \<Rightarrow> bool \<Rightarrow> nat \<Rightarrow> nat \<Rightarrow> node list \<Rightarrow> bool" where
  "layer_inv A M par b l ns \<longleftrightarrow>
     sorted (map layer ns)
     \<and> (\<forall>x\<in>set ns. layer x < l)
     \<and> (\<forall>x\<in>set ns. \<forall>b'. module_name_attr x = A b' \<or> module_name_attr x = M b' \<longrightarrow> b' < b)
     \<and> (\<forall>a\<in>set ns. \<forall>m\<in>set ns. \<forall>b'.
           module_name_attr a = A b' \<and> module_name_attr m = M b'
           \<longrightarrow> layer m = (if par then layer a else Suc (layer a)))"

section \<open>autoencoder\_model\<close>

definition deepcopy :: "'a \<Rightarrow> 'a" where
  "deepcopy x = x"

text \<open>
  \<^verbatim>\<open>setattr(obj, name, value)\<close> on a block, given the attribute's old value. For a plain
  Python object the value is stored. A \<^verbatim>\<open>torch.nn.Module\<close> refuses a value that is not
  a module under a name registered as a child module, with a \<^verbatim>\<open>TypeError\<close>. Which of
  the two applies is an argument of \<open>autoencoder_model\<close>.
\<close>

definition object_setattr :: "hook \<Rightarrow> hook \<Rightarrow> error + hook" where
  "object_setattr old v = Inr v"

definition module_setattr :: "hook \<Rightarrow> hook \<Rightarrow> error + hook" where
  "module_setattr old v =
     (case v of
        StrValue s \<Rightarrow> (case old of StrValue t \<Rightarrow> Inr v | _ \<Rightarrow> Inl TypeError)
      | _ \<Rightarrow> Inr v)"

text \<open>
  The body of \<^verbatim>\<open>for layer_idx in range(model.cfg.n_layers)\<close>. \<^verbatim>\<open>load_autoencoder\<close>
  is imported from \<^verbatim>\<open>sparse_autoencoder\<close> and is an argument here; \<^verbatim>\<open>sae.to(device)\<close>
  moves the autoencoder and leaves its value unchanged.
\<close>

definition install_autoencoder ::
  "(hook \<Rightarrow> HookedTransformer \<Rightarrow> nat \<Rightarrow> string \<Rightarrow> string option \<Rightarrow> SparseAutoencoder)
   \<Rightarrow> (hook \<Rightarrow> hook \<Rightarrow> error + hook) \<Rightarrow> string \<Rightarrow> string option
   \<Rightarrow> HookedTransformer \<times> SparseAutoencoder list \<Rightarrow> nat
   \<Rightarrow> error + HookedTransformer \<times> SparseAutoencoder list" where
  "install_autoencoder load_autoencoder setattr sae_input pythia_size st layer_idx =
     (let model = fst st; sparse_autoencoders = snd st in
      if length (blocks model) \<le> layer_idx then Inl IndexError
      else
        let blk = blocks model ! layer_idx in
        if sae_input = ''mlp_post_act'' then
          let hook_point = mlp_hook_post blk;
              sae = load_autoencoder hook_point model layer_idx sae_input pythia_size
          in case setattr hook_point (StrValue sae_input) of
               Inl e \<Rightarrow> Inl e
             | Inr v \<Rightarrow>
                 Inr (model\<lparr>blocks := (blocks model)[layer_idx := blk\<lparr>mlp_hook_post := v\<rparr>]\<rparr>,
                      sparse_autoencoders @ [sae])
        else if sae_input \<noteq> ''resid_delta_mlp'' then Inl AssertionError
        else
          let hook_point = hook_mlp_out blk;
              sae = load_autoencoder hook_point model layer_idx sae_input pythia_size
          in case setattr hook_point (Autoencoder sae) of
               Inl e \<Rightarrow> Inl e
             | Inr v \<Rightarrow>
                 Inr (model\<lparr>blocks := (blocks model)[layer_idx := blk\<lparr>hook_mlp_out := v\<rparr>]\<rparr>,
                      sparse_autoencoders @ [sae]))"

definition autoencoder_model ::
  "(hook \<Rightarrow> HookedTransformer \<Rightarrow> nat \<Rightarrow> string \<Rightarrow> string option \<Rightarrow> SparseAutoencoder)
   \<Rightarrow> (hook \<Rightarrow> hook \<Rightarrow> error + hook)
   \<Rightarrow> HookedTransformer \<Rightarrow> string \<Rightarrow> string option \<Rightarrow> bool
   \<Rightarrow> error + HookedTransformer AutoencoderTransformer" where
  "autoencoder_model load_autoencoder setattr model sae_input pythia_size new_instance =
     (let model = (if new_instance then deepcopy model else model) in
      case for_each (install_autoencoder load_autoencoder setattr sae_input pythia_size)
             [0..<n_layers (cfg model)] (model, []) of
        Inl e \<Rightarrow> Inl e
      | Inr st \<Rightarrow> Inr (init (OtherModule (fst st)) (snd st)))"

section \<open>AutoencoderTransformer.\_prune\_latents\_with\_dataset\<close>

text \<open>\<^verbatim>\<open>(sae.latent_total_act > 0).sum(dim=-1).tolist()\<close>: an int, or a list of ints.\<close>

datatype activated = ActInt int | ActList "int list"

definition count_positive :: "real list \<Rightarrow> int" where
  "count_positive row = int (length (filter (\<lambda>x. 0 < x) row))"

definition activated_latents :: "tensor \<Rightarrow> activated" where
  "activated_latents act =
     (case act of Vec row \<Rightarrow> ActInt (count_positive row)
                | Mat rows \<Rightarrow> ActList (map count_positive rows))"

text \<open>\<^verbatim>\<open>activated if type(activated) == int else max(activated)\<close>\<close>

definition activated_count_of :: "activated \<Rightarrow> error + int" where
  "activated_count_of activated =
     (case activated of
        ActInt n \<Rightarrow> Inr n
      | ActList [] \<Rightarrow> Inl ValueError
      | ActList (x # xs) \<Rightarrow> Inr (fold max xs x))"

text \<open>\<^verbatim>\<open>max_latents or activated_count\<close>: \<open>None\<close> and \<open>0\<close> are falsy.\<close>

definition py_or :: "int option \<Rightarrow> int \<Rightarrow> int" where
  "py_or max_latents activated_count =
     (case max_latents of
        None \<Rightarrow> activated_count
      | Some n \<Rightarrow> if n = 0 then activated_count else n)"

text \<open>The slice \<^verbatim>\<open>xs[:k]\<close>; a negative \<open>k\<close> counts from the end.\<close>

definition slice_to :: "'a list \<Rightarrow> int \<Rightarrow> 'a list" where
  "slice_to xs k = (if 0 \<le> k then take (nat k) xs else take (length xs - nat (- k)) xs)"

text \<open>
  \<^verbatim>\<open>t.sort(row, descending=True).indices\<close>. Torch leaves the order of equal elements
  open; here they keep their index order.
\<close>

definition sort_indices_descending :: "real list \<Rightarrow> nat list" where
  "sort_indices_descending row = map snd (rev (sort_key fst (rev (zip row [0..<length row]))))"

datatype index_tensor = IVec "nat list" | IMat "nat list list"

definition idxs_to_keep_of :: "tensor \<Rightarrow> int \<Rightarrow> index_tensor" where
  "idxs_to_keep_of act max_idx =
     (case act of
        Vec row \<Rightarrow> IVec (slice_to (sort_indices_descending row) max_idx)
      | Mat rows \<Rightarrow> IMat (map (\<lambda>row. slice_to (sort_indices_descending row) max_idx) rows))"

text \<open>
  Modelled from the spec: \<^verbatim>\<open>SparseAutoencoder.prune_latents\<close> is defined in
  \<^verbatim>\<open>sparse_autoencoder.py\<close>, which is not among the sources. The autoencoder "supports
  in-place pruning to a retained subset of latent indices" and can "report current
  latent count": after the call the latents are the given indices, in the given order.
\<close>

definition prune_latents :: "SparseAutoencoder \<Rightarrow> index_tensor \<Rightarrow> SparseAutoencoder" where
  "prune_latents sae idxs_to_keep =
     (case (latent_total_act sae, idxs_to_keep) of
        (Vec row, IVec ks) \<Rightarrow>
          sae\<lparr>n_latents := length ks, latent_total_act := Vec (map ((!) row) ks)\<rparr>
      | (Mat rows, IMat kss) \<Rightarrow>
          sae\<lparr>n_latents := (case kss of [] \<Rightarrow> 0 | ks # _ \<Rightarrow> length ks),
              latent_total_act := Mat (map (\<lambda>(row, ks). map ((!) row) ks) (zip rows kss))\<rparr>
      | _ \<Rightarrow> sae)"

text \<open>
  The state of the loop \<^verbatim>\<open>for sae in self.sparse_autoencoders\<close> of lines 67 to 75:
  the variable \<^verbatim>\<open>max_latents\<close>, the two lists that are printed, and the autoencoders
  pruned so far.
\<close>

record prune_state =
  max_latents :: "int option"
  activated_latent_counts :: "activated list"
  latent_counts :: "int list"
  pruned :: "SparseAutoencoder list"

definition prune_autoencoder :: "prune_state \<Rightarrow> SparseAutoencoder \<Rightarrow> error + prune_state" where
  "prune_autoencoder st sae =
     (let activated = activated_latents (latent_total_act sae) in
      case activated_count_of activated of
        Inl e \<Rightarrow> Inl e
      | Inr activated_count \<Rightarrow>
          let max_latents' = py_or (max_latents st) activated_count;
              max_idx = min max_latents' activated_count;
              idxs_to_keep = idxs_to_keep_of (latent_total_act sae) max_idx
          in Inr \<lparr>max_latents = Some max_latents',
                  activated_latent_counts = activated_latent_counts st @ [activated],
                  latent_counts = latent_counts st @ [max_idx],
                  pruned = pruned st @ [prune_latents sae idxs_to_keep]\<rparr>)"

text \<open>
  The method: the counters are reset, the dataset is run through the model, which
  accumulates the activations in the autoencoders (both are given as functions on the
  list of autoencoders), then every autoencoder is pruned. The second run of the dataset
  and the KL divergence only print. The result is the object with its autoencoders
  pruned, and the two printed lists.
\<close>

definition prune_latents_with_dataset ::
  "(SparseAutoencoder \<Rightarrow> SparseAutoencoder)
   \<Rightarrow> (SparseAutoencoder list \<Rightarrow> SparseAutoencoder list)
   \<Rightarrow> 'm AutoencoderTransformer \<Rightarrow> int option
   \<Rightarrow> error + 'm AutoencoderTransformer \<times> activated list \<times> int list" where
  "prune_latents_with_dataset reset_activated_latents run_dataset self max_latents_arg =
     (let saes = run_dataset (map reset_activated_latents (sparse_autoencoders self)) in
      case for_each prune_autoencoder saes
             \<lparr>max_latents = max_latents_arg, activated_latent_counts = [],
              latent_counts = [], pruned = []\<rparr> of
        Inl e \<Rightarrow> Inl e
      | Inr st \<Rightarrow>
          Inr (self\<lparr>sparse_autoencoders := pruned st\<rparr>,
               activated_latent_counts st, latent_counts st))"

section \<open>prune.py: run\_pruned\<close>

text \<open>
  \<^verbatim>\<open>ActType\<close> is an enumeration with the members clean, corrupt and zero; the last
  constructor stands for any other value an \<^verbatim>\<open>ExperimentType\<close> may carry, since Python
  does not check the annotation.
\<close>

datatype ActType = CLEAN | CORRUPT | ZERO | OtherActType

record ExperimentType =
  input_type :: ActType
  patch_type :: ActType

record 'inp PromptPairBatch =
  clean :: 'inp
  corrupt :: 'inp

text \<open>What \<^verbatim>\<open>run_pruned\<close> does to the world, in order.\<close>

datatype ('e, 'inp) event =
    SortPruneScores
  | Forward 'inp
  | AppendOut nat
  | GetSortedSrcOuts 'inp
  | EnterPatchMode
  | SetPatchMask 'e
  | DrawSeqGraph
  | ExitPatchMode

text \<open>
  The patchable model as \<^verbatim>\<open>run_pruned\<close> sees it: the patch mask entry of every edge,
  the tensors \<^verbatim>\<open>(curr_src_outs, patch_src_outs)\<close> while a patch-mode context is open,
  and the events so far.
\<close>

record ('e, 't, 'inp) model_state =
  patch_mask :: "'e \<Rightarrow> nat"
  patch_ctx :: "('t \<times> 't) option"
  trace :: "('e, 'inp) event list"

text \<open>
  The functions \<^verbatim>\<open>run_pruned\<close> calls and does not define: the two forward passes of
  the model, \<^verbatim>\<open>model.out_slice\<close> as the slicing it performs, \<^verbatim>\<open>get_sorted_src_outs\<close>,
  \<^verbatim>\<open>t.zeros_like\<close>, \<^verbatim>\<open>t.stack\<close> on a non-empty list and \<^verbatim>\<open>edge.src\<close>.
\<close>

record ('e, 'n, 't, 'inp, 'out) collaborators =
  unpatched_forward :: "'inp \<Rightarrow> 'out"
  patched_forward :: "('e \<Rightarrow> nat) \<Rightarrow> 't \<Rightarrow> 't \<Rightarrow> 'inp \<Rightarrow> 'out"
  out_slice :: "'out \<Rightarrow> 'out"
  get_sorted_src_outs :: "'inp \<Rightarrow> ('n \<times> 't) list"
  zeros_like :: "'t \<Rightarrow> 't"
  stack :: "'t list \<Rightarrow> 't"
  edge_src :: "'e \<Rightarrow> 'n"

definition log_event ::
  "('e, 'inp) event \<Rightarrow> ('e, 't, 'inp) model_state \<Rightarrow> ('e, 't, 'inp) model_state" where
  "log_event ev w = w\<lparr>trace := trace w @ [ev]\<rparr>"

text \<open>
  Modelled from the spec: the forward pass of the patchable model and \<^verbatim>\<open>patch_mode\<close>
  are defined in \<^verbatim>\<open>patchable_model.py\<close> and \<^verbatim>\<open>graph_utils.py\<close>, which are not among
  the sources. "The current/baseline tensors and patch interception hooks are active only
  within the bounded lifetime of processing one data batch": outside a patch-mode
  context the forward pass is the model's own, inside it is a function of the masks and
  of the two tensors. Entered with \<^verbatim>\<open>reset_mask=True\<close>, the context starts from masks
  that are all zero; leaving it removes the two tensors.
\<close>

definition call_model ::
  "('e, 'n, 't, 'inp, 'out) collaborators \<Rightarrow> ('e, 't, 'inp) model_state \<Rightarrow> 'inp \<Rightarrow> 'out" where
  "call_model C w x =
     (case patch_ctx w of
        None \<Rightarrow> unpatched_forward C x
      | Some ctx \<Rightarrow> patched_forward C (patch_mask w) (fst ctx) (snd ctx) x)"

definition enter_patch_mode ::
  "'t \<Rightarrow> 't \<Rightarrow> ('e, 't, 'inp) model_state \<Rightarrow> ('e, 't, 'inp) model_state" where
  "enter_patch_mode curr_src_outs patch_src_outs w =
     log_event EnterPatchMode
       (w\<lparr>patch_mask := (\<lambda>e. 0), patch_ctx := Some (curr_src_outs, patch_src_outs)\<rparr>)"

definition exit_patch_mode :: "('e, 't, 'inp) model_state \<Rightarrow> ('e, 't, 'inp) model_state" where
  "exit_patch_mode w = log_event ExitPatchMode (w\<lparr>patch_ctx := None\<rparr>)"

text \<open>\<^verbatim>\<open>pruned_outs[k].append(x)\<close> on a \<^verbatim>\<open>defaultdict(list)\<close>.\<close>

definition append_out :: "(nat \<rightharpoonup> 'out list) \<Rightarrow> nat \<Rightarrow> 'out \<Rightarrow> (nat \<rightharpoonup> 'out list)" where
  "append_out pruned_outs k x =
     pruned_outs(k \<mapsto> (case pruned_outs k of None \<Rightarrow> [] | Some xs \<Rightarrow> xs) @ [x])"

text \<open>
  \<^verbatim>\<open>dict(sorted(prune_scores.items(), key=lambda x: x[1], reverse=True))\<close>, on the items
  of the dictionary in iteration order. Python sorts with \<^verbatim>\<open>reverse=True\<close> by reversing
  the list, sorting it stably in ascending order and reversing the result.
\<close>

definition sort_prune_scores :: "('e \<times> real) list \<Rightarrow> ('e \<times> real) list" where
  "sort_prune_scores items = rev (sort_key snd (rev items))"

text \<open>A forward pass inside \<^verbatim>\<open>t.inference_mode()\<close> whose sliced output is appended under \<open>k\<close>.\<close>

definition record_output ::
  "('e, 'n, 't, 'inp, 'out) collaborators \<Rightarrow> nat \<Rightarrow> 'inp
   \<Rightarrow> ('e, 't, 'inp) model_state \<times> (nat \<rightharpoonup> 'out list)
   \<Rightarrow> ('e, 't, 'inp) model_state \<times> (nat \<rightharpoonup> 'out list)" where
  "record_output C k batch_input st =
     (let w = fst st; pruned_outs = snd st;
          model_output = call_model C w batch_input
      in (log_event (AppendOut k) (log_event (Forward batch_input) w),
          append_out pruned_outs k (out_slice C model_output)))"

text \<open>
  The loop \<^verbatim>\<open>for edge_idx, edge in enumerate(prune_scores.keys())\<close>, from index
  \<open>edge_idx\<close> on.
\<close>

fun activate_edges ::
  "('e, 'n, 't, 'inp, 'out) collaborators \<Rightarrow> nat list \<Rightarrow> 'inp \<Rightarrow> nat \<Rightarrow> 'e list
   \<Rightarrow> ('e, 't, 'inp) model_state \<times> (nat \<rightharpoonup> 'out list)
   \<Rightarrow> ('e, 't, 'inp) model_state \<times> (nat \<rightharpoonup> 'out list)" where
  "activate_edges C test_edge_counts batch_input edge_idx [] st = st"
| "activate_edges C test_edge_counts batch_input edge_idx (edge # rest) st =
     (let n_edge = edge_idx + 1;
          w = log_event (SetPatchMask edge) ((fst st)\<lparr>patch_mask := (patch_mask (fst st))(edge := 1)\<rparr>);
          st' = (if n_edge \<in> set test_edge_counts
                 then record_output C n_edge batch_input (w, snd st)
                 else (w, snd st))
      in activate_edges C test_edge_counts batch_input (edge_idx + 1) rest st')"

definition batch_input_of :: "ExperimentType \<Rightarrow> 'inp PromptPairBatch \<Rightarrow> error + 'inp" where
  "batch_input_of experiment_type batch =
     (case input_type experiment_type of
        CLEAN \<Rightarrow> Inr (clean batch)
      | CORRUPT \<Rightarrow> Inr (corrupt batch)
      | _ \<Rightarrow> Inl NotImplementedError)"

definition patch_outs_of ::
  "('e, 'n, 't, 'inp, 'out) collaborators \<Rightarrow> ExperimentType \<Rightarrow> 'inp PromptPairBatch
   \<Rightarrow> error + ('n \<times> 't) list" where
  "patch_outs_of C experiment_type batch =
     (case patch_type experiment_type of
        CLEAN \<Rightarrow> Inr (get_sorted_src_outs C (clean batch))
      | CORRUPT \<Rightarrow> Inr (get_sorted_src_outs C (corrupt batch))
      | ZERO \<Rightarrow> Inr (map (\<lambda>(n, out). (n, zeros_like C out)) (get_sorted_src_outs C (clean batch)))
      | OtherActType \<Rightarrow> Inl AssertionError)"

text \<open>The input whose source outputs \<^verbatim>\<open>get_sorted_src_outs\<close> is asked for.\<close>

definition patch_input_of :: "ExperimentType \<Rightarrow> 'inp PromptPairBatch \<Rightarrow> 'inp" where
  "patch_input_of experiment_type batch =
     (if patch_type experiment_type = CORRUPT then corrupt batch else clean batch)"

text \<open>
  \<^verbatim>\<open>labels = dict([(e, patch_outs[e.src]) for e, _ in prune_scores.items()])\<close>: a
  missing key is a \<^verbatim>\<open>KeyError\<close>.
\<close>

fun labels_of ::
  "('e, 'n, 't, 'inp, 'out) collaborators \<Rightarrow> ('n \<times> 't) list \<Rightarrow> 'e list \<Rightarrow> error + ('e \<times> 't) list" where
  "labels_of C patch_outs [] = Inr []"
| "labels_of C patch_outs (e # es) =
     (case map_of patch_outs (edge_src C e) of
        None \<Rightarrow> Inl KeyError
      | Some v \<Rightarrow> (case labels_of C patch_outs es of
                     Inl err \<Rightarrow> Inl err
                   | Inr ls \<Rightarrow> Inr ((e, v) # ls)))"

text \<open>The body of \<^verbatim>\<open>for batch_idx, batch in enumerate(data_loader)\<close>.\<close>

definition process_batch ::
  "('e, 'n, 't, 'inp, 'out) collaborators \<Rightarrow> ExperimentType \<Rightarrow> nat list \<Rightarrow> ('e \<times> real) list
   \<Rightarrow> bool
   \<Rightarrow> ('e, 't, 'inp) model_state \<times> (nat \<rightharpoonup> 'out list) \<Rightarrow> 'inp PromptPairBatch
   \<Rightarrow> error + ('e, 't, 'inp) model_state \<times> (nat \<rightharpoonup> 'out list)" where
  "process_batch C experiment_type test_edge_counts prune_scores render_graph st batch =
     (case batch_input_of experiment_type batch of
        Inl e \<Rightarrow> Inl e
      | Inr batch_input \<Rightarrow>
          let st1 = (if 0 \<in> set test_edge_counts then record_output C 0 batch_input st else st) in
          case patch_outs_of C experiment_type batch of
            Inl e \<Rightarrow> Inl e
          | Inr patch_outs \<Rightarrow>
              if patch_outs = [] then Inl RuntimeError
              else
                let w1 = log_event (GetSortedSrcOuts (patch_input_of experiment_type batch)) (fst st1);
                    patch_src_outs = stack C (map snd patch_outs);
                    curr_src_outs = zeros_like C patch_src_outs;
                    w2 = enter_patch_mode curr_src_outs patch_src_outs w1;
                    st3 = activate_edges C test_edge_counts batch_input 0 (map fst prune_scores)
                            (w2, snd st1)
                in if render_graph then
                     case labels_of C patch_outs (map fst prune_scores) of
                       Inl e \<Rightarrow> Inl e
                     | Inr labels \<Rightarrow> Inr (exit_patch_mode (log_event DrawSeqGraph (fst st3)), snd st3)
                   else Inr (exit_patch_mode (fst st3), snd st3))"

text \<open>
  \<^verbatim>\<open>run_pruned\<close>: the data loader is the list of its batches, \<open>model\<close> the state of
  the model at the call. The result is the dictionary \<^verbatim>\<open>pruned_outs\<close>, with the state
  the model is left in.
\<close>

definition run_pruned ::
  "('e, 'n, 't, 'inp, 'out) collaborators \<Rightarrow> ('e, 't, 'inp) model_state
   \<Rightarrow> 'inp PromptPairBatch list \<Rightarrow> ExperimentType \<Rightarrow> nat list \<Rightarrow> ('e \<times> real) list \<Rightarrow> bool
   \<Rightarrow> error + (nat \<rightharpoonup> 'out list) \<times> ('e, 't, 'inp) model_state" where
  "run_pruned C model data_loader experiment_type test_edge_counts prune_scores render_graph =
     (let pruned_outs = Map.empty;
          prune_scores' = sort_prune_scores prune_scores;
          model' = log_event SortPruneScores model
      in case for_each (process_batch C experiment_type test_edge_counts prune_scores' render_graph)
                data_loader (model', pruned_outs) of
           Inl e \<Rightarrow> Inl e
         | Inr st \<Rightarrow> Inr (snd st, fst st))"

text \<open>The edges whose mask entry a sequence of events sets to 1, in order.\<close>

fun mask_writes :: "('e, 'inp) event list \<Rightarrow> 'e list" where
  "mask_writes [] = []"
| "mask_writes (SetPatchMask e # evs) = e # mask_writes evs"
| "mask_writes (ev # evs) = mask_writes evs"

text \<open>
  A small instance on which the functions can be evaluated: edges, source nodes and
  inputs are numbers, a tensor is a number, and the patched forward pass returns its
  input followed by the mask entries of the edges 0, 1 and 2.
\<close>

definition demo_collaborators :: "(nat, nat, nat, nat, nat list) collaborators" where
  "demo_collaborators =
     \<lparr>unpatched_forward = (\<lambda>x. [x]),
      patched_forward = (\<lambda>m curr patch x. [x, m 0, m 1, m 2]),
      out_slice = (\<lambda>out. out),
      get_sorted_src_outs = (\<lambda>x. [(0, x)]),
      zeros_like = (\<lambda>t. 0),
      stack = sum_list,
      edge_src = (\<lambda>e. 0)\<rparr>"

definition demo_model :: "(nat, nat, nat) model_state" where
  "demo_model = \<lparr>patch_mask = (\<lambda>e. 0), patch_ctx = None, trace = []\<rparr>"

text \<open>The mask in which exactly the given edges are at 1.\<close>

definition mask_of :: "'e list \<Rightarrow> 'e \<Rightarrow> nat" where
  "mask_of es = (\<lambda>e. if e \<in> set es then 1 else 0)"

text \<open>The events of the loop over the edges, from index \<open>edge_idx\<close> on.\<close>

fun edge_events :: "nat list \<Rightarrow> 'inp \<Rightarrow> nat \<Rightarrow> 'e list \<Rightarrow> ('e, 'inp) event list" where
  "edge_events test_edge_counts batch_input edge_idx [] = []"
| "edge_events test_edge_counts batch_input edge_idx (edge # rest) =
     SetPatchMask edge
     # (if edge_idx + 1 \<in> set test_edge_counts
        then [Forward batch_input, AppendOut (edge_idx + 1)] else [])
     @ edge_events test_edge_counts batch_input (edge_idx + 1) rest"

text \<open>
  What a successful pass over one batch uses: the input selected by the input type, and
  the stacked patch baseline \<^verbatim>\<open>patch_src_outs\<close>.
\<close>

definition chosen_input :: "ExperimentType \<Rightarrow> 'inp PromptPairBatch \<Rightarrow> 'inp" where
  "chosen_input experiment_type batch =
     (if input_type experiment_type = CORRUPT then corrupt batch else clean batch)"

definition baseline_of ::
  "('e, 'n, 't, 'inp, 'out) collaborators \<Rightarrow> ExperimentType \<Rightarrow> 'inp PromptPairBatch \<Rightarrow> 't" where
  "baseline_of C experiment_type batch =
     stack C (map snd (case patch_outs_of C experiment_type batch of
                         Inr patch_outs \<Rightarrow> patch_outs | Inl e \<Rightarrow> []))"

text \<open>
  The output expected under checkpoint \<open>n\<close> for a batch: the model's own forward pass
  for \<open>n = 0\<close>, and otherwise the patched pass in which exactly the first \<open>n\<close> edges of the
  given order are at 1.
\<close>

definition checkpoint_output ::
  "('e, 'n, 't, 'inp, 'out) collaborators \<Rightarrow> ExperimentType \<Rightarrow> 'e list \<Rightarrow> nat
   \<Rightarrow> 'inp PromptPairBatch \<Rightarrow> 'out" where
  "checkpoint_output C experiment_type edges n batch =
     out_slice C
       (if n = 0 then unpatched_forward C (chosen_input experiment_type batch)
        else patched_forward C (mask_of (take n edges))
               (zeros_like C (baseline_of C experiment_type batch))
               (baseline_of C experiment_type batch)
               (chosen_input experiment_type batch))"

text \<open>The events of a successful pass over one batch.\<close>

definition batch_events ::
  "ExperimentType \<Rightarrow> nat list \<Rightarrow> bool \<Rightarrow> 'e list \<Rightarrow> 'inp PromptPairBatch \<Rightarrow> ('e, 'inp) event list" where
  "batch_events experiment_type test_edge_counts render_graph edges batch =
     (if 0 \<in> set test_edge_counts
      then [Forward (chosen_input experiment_type batch), AppendOut 0] else [])
     @ [GetSortedSrcOuts (patch_input_of experiment_type batch), EnterPatchMode]
     @ edge_events test_edge_counts (chosen_input experiment_type batch) 0 edges
     @ (if render_graph then [DrawSeqGraph] else [])
     @ [ExitPatchMode]"

section \<open>Auxiliary facts\<close>

lemma length_str_nat_pos: "0 < length (str_nat n)"
  by (subst str_nat.simps) simp

lemma length_str_nat_one: "length (str_nat n) = Suc 0 \<longleftrightarrow> n < 10"
  using length_str_nat_pos [of "n div 10"] by (subst str_nat.simps) auto

lemma digit_char_inj: "a < 10 \<Longrightarrow> b < 10 \<Longrightarrow> digit_char a = digit_char b \<Longrightarrow> a = b"
  by (simp add: digit_char_def char_of_eq_iff take_bit_nat_eq_self)

lemma str_nat_inj: "str_nat n = str_nat m \<Longrightarrow> n = m"
proof (induction n arbitrary: m rule: str_nat.induct)
  case (1 n)
  show ?case
  proof (cases "n < 10")
    case True
    with "1.prems" have "length (str_nat m) = Suc 0"
      by (metis length_str_nat_one)
    then have m: "m < 10" by (simp add: length_str_nat_one)
    from "1.prems" True m have "digit_char n = digit_char m"
      by (simp add: str_nat.simps [of n] str_nat.simps [of m])
    with True m show ?thesis by (rule digit_char_inj)
  next
    case False
    with "1.prems" have "length (str_nat m) \<noteq> Suc 0"
      by (metis length_str_nat_one)
    then have m: "\<not> m < 10" by (simp add: length_str_nat_one)
    from "1.prems" False m
    have eq: "str_nat (n div 10) @ [digit_char (n mod 10)] = str_nat (m div 10) @ [digit_char (m mod 10)]"
      by (simp add: str_nat.simps [of n] str_nat.simps [of m])
    then have "str_nat (n div 10) = str_nat (m div 10)" and d: "digit_char (n mod 10) = digit_char (m mod 10)"
      by simp_all
    with "1.IH" False have "n div 10 = m div 10" by simp
    moreover from d have "n mod 10 = m mod 10" by (intro digit_char_inj) simp_all
    ultimately show ?thesis by (metis div_mult_mod_eq)
  qed
qed

lemma for_each_append:
  "for_each body (xs @ ys) st =
     (case for_each body xs st of Inl e \<Rightarrow> Inl e | Inr s \<Rightarrow> for_each body ys s)"
  by (induction xs arbitrary: st) (auto split: sum.splits)

lemma for_each_upt_Suc:
  "for_each body [0..<Suc n] st =
     (case for_each body [0..<n] st of Inl e \<Rightarrow> Inl e | Inr s \<Rightarrow> body s n)"
  by (simp add: for_each_append split: sum.splits)

lemma for_each_upt_induct:
  assumes "for_each body [0..<n] st = Inr st'"
    and "P 0 st"
    and "\<And>b s s'. b < n \<Longrightarrow> P b s \<Longrightarrow> body s b = Inr s' \<Longrightarrow> P (Suc b) s'"
  shows "P n st'"
  using assms
proof (induction n arbitrary: st')
  case 0
  then show ?case by simp
next
  case (Suc n)
  from Suc.prems(1) obtain s where s: "for_each body [0..<n] st = Inr s" and b: "body s n = Inr st'"
    by (auto simp: for_each_upt_Suc simp del: upt_Suc split: sum.splits)
  have "P n s"
    by (rule Suc.IH [OF s Suc.prems(2)]) (rule Suc.prems(3), auto)
  then show ?case using b Suc.prems(3) by blast
qed

lemma for_each_upt_total:
  assumes "\<And>b s. b < n \<Longrightarrow> \<exists>s'. body s b = Inr s'"
  shows "\<exists>st'. for_each body [0..<n] st = Inr st'"
  using assms
proof (induction n)
  case 0
  then show ?case by simp
next
  case (Suc n)
  then obtain s where "for_each body [0..<n] st = Inr s" by force
  moreover obtain s' where "body s n = Inr s'" using Suc.prems by blast
  ultimately show ?case by (simp add: for_each_upt_Suc del: upt_Suc)
qed

lemma foldl_add_node_upt:
  "foldl (\<lambda>s h. add_node s (mk h)) st [0..<H] =
     st\<lparr>idxs := idxs st + H, nodes := nodes st @ map (\<lambda>h. mk h (idxs st + h)) [0..<H]\<rparr>"
  by (induction H) (simp_all add: add_node_def)

subsection \<open>One block of the enumerations\<close>

lemma src_block_Inr:
  assumes "b < length (blocks m)" and "hook_mlp_out (blocks m ! b) = Autoencoder sae"
  shows "src_block m st b =
     Inr \<lparr>layers = layers st + (if parallel_attn_mlp (cfg m) then 1 else 2),
          idxs = idxs st + n_heads (cfg m) + n_latents sae,
          nodes = nodes st
            @ map (\<lambda>h. attn_src_node b h (layers st) (idxs st + h)) [0..<n_heads (cfg m)]
            @ map (\<lambda>k. latent_src_node b k
                          (if parallel_attn_mlp (cfg m) then layers st else Suc (layers st))
                          (idxs st + n_heads (cfg m) + k)) [0..<n_latents sae]\<rparr>"
  using assms by (simp add: src_block_def Let_def foldl_add_node_upt)

lemma src_block_cases:
  assumes "src_block m st b = Inr st'"
  obtains sae where "b < length (blocks m)" and "hook_mlp_out (blocks m ! b) = Autoencoder sae"
  using assms by (auto simp: src_block_def Let_def split: if_splits hook.splits)

lemma dest_block_Inr:
  "dest_block c st b =
     Inr \<lparr>layers = layers st + (if parallel_attn_mlp c then 1 else 2),
          idxs = idxs st + n_heads c + 1,
          nodes = nodes st
            @ map (\<lambda>h. attn_dest_node b h (layers st) (idxs st + h)) [0..<n_heads c]
            @ [mlp_dest_node b (if parallel_attn_mlp c then layers st else Suc (layers st))
                 (idxs st + n_heads c)]\<rparr>"
  unfolding dest_block_def Let_def foldl_add_node_upt by (simp add: add_node_def)

lemma idx_simps [simp]:
  "idx (attn_src_node b h l i) = i" "idx (latent_src_node b k l i) = i"
  "idx (attn_dest_node b h l i) = i" "idx (mlp_dest_node b l i) = i"
  "idx (resid_start l i) = i" "idx (resid_end n l i) = i"
  by (simp_all add: attn_src_node_def latent_src_node_def attn_dest_node_def mlp_dest_node_def
      resid_start_def resid_end_def)

lemma layer_simps [simp]:
  "layer (attn_src_node b h l i) = l" "layer (latent_src_node b k l i) = l"
  "layer (attn_dest_node b h l i) = l" "layer (mlp_dest_node b l i) = l"
  "layer (resid_start l i) = l" "layer (resid_end n l i) = l"
  by (simp_all add: attn_src_node_def latent_src_node_def attn_dest_node_def mlp_dest_node_def
      resid_start_def resid_end_def)

lemma map_add_upt': "map (\<lambda>h. i + h) [0..<n] = [i..<i + n]"
  by (induction n) simp_all

lemma upt_split2: "[0..<i + a] = [0..<i] @ [i..<i + (a::nat)]"
  by (rule upt_add_eq_append) simp

lemma upt_split3: "[0..<i + a + b] = [0..<i] @ [i..<i + a] @ [i + a..<i + a + (b::nat)]"
  by (metis le_add1 upt_add_eq_append add.assoc zero_le)

lemma src_block_idx:
  assumes "src_block m st b = Inr st'" and "map idx (nodes st) = [0..<idxs st]"
  shows "map idx (nodes st') = [0..<idxs st']"
proof -
  from assms(1) obtain sae where "b < length (blocks m)"
    and "hook_mlp_out (blocks m ! b) = Autoencoder sae"
    by (rule src_block_cases)
  from src_block_Inr [OF this, of st] assms show ?thesis
    by (auto simp: o_def map_add_upt' upt_split3)
qed


lemma dest_block_idx:
  assumes "dest_block c st b = Inr st'" and "map idx (nodes st) = [0..<idxs st]"
  shows "map idx (nodes st') = [0..<idxs st']"
  using assms unfolding dest_block_Inr
  by (auto simp: o_def map_add_upt' upt_split2)

lemma valid_configuration_block:
  assumes "valid_configuration model L" and "b < n_layers (cfg (wrapped_model model))"
  obtains sae where "b < length (blocks (wrapped_model model))"
    and "hook_mlp_out (blocks (wrapped_model model) ! b) = Autoencoder sae"
    and "n_latents sae = L"
proof -
  from assms have len: "b < length (blocks (wrapped_model model))"
    by (simp add: valid_configuration_def Let_def)
  from assms have "list_all (\<lambda>blk. case hook_mlp_out blk of
                            Autoencoder sae \<Rightarrow> n_latents sae = L
                          | _ \<Rightarrow> False) (blocks (wrapped_model model))"
    by (simp add: valid_configuration_def Let_def)
  with len have "case hook_mlp_out (blocks (wrapped_model model) ! b) of
                   Autoencoder sae \<Rightarrow> n_latents sae = L | _ \<Rightarrow> False"
    by (simp add: list_all_length)
  with len that show ?thesis by (auto split: hook.splits)
qed

lemma src_loop_valid:
  assumes v: "valid_configuration model L"
    and n: "n \<le> n_layers (cfg (wrapped_model model))"
    and st: "map idx (nodes st) = [0..<idxs st]"
  shows "\<exists>st'. for_each (src_block (wrapped_model model)) [0..<n] st = Inr st'
           \<and> idxs st' = idxs st + n * (n_heads (cfg (wrapped_model model)) + L)
           \<and> map idx (nodes st') = [0..<idxs st']"
  using n
proof (induction n)
  case 0
  with st show ?case by simp
next
  case (Suc n)
  then obtain s where s: "for_each (src_block (wrapped_model model)) [0..<n] st = Inr s"
    and i: "idxs s = idxs st + n * (n_heads (cfg (wrapped_model model)) + L)"
    and m: "map idx (nodes s) = [0..<idxs s]"
    by auto
  from Suc.prems have "n < n_layers (cfg (wrapped_model model))" by simp
  with v obtain sae where b: "n < length (blocks (wrapped_model model))"
    and h: "hook_mlp_out (blocks (wrapped_model model) ! n) = Autoencoder sae"
    and l: "n_latents sae = L"
    by (rule valid_configuration_block)
  let ?s' = "\<lparr>layers = layers s + (if parallel_attn_mlp (cfg (wrapped_model model)) then 1 else 2),
          idxs = idxs s + n_heads (cfg (wrapped_model model)) + n_latents sae,
          nodes = nodes s
            @ map (\<lambda>h. attn_src_node n h (layers s) (idxs s + h))
                [0..<n_heads (cfg (wrapped_model model))]
            @ map (\<lambda>k. latent_src_node n k
                          (if parallel_attn_mlp (cfg (wrapped_model model)) then layers s
                           else Suc (layers s))
                          (idxs s + n_heads (cfg (wrapped_model model)) + k))
                [0..<n_latents sae]\<rparr>"
  have step: "src_block (wrapped_model model) s n = Inr ?s'"
    by (rule src_block_Inr [OF b h])
  have a: "for_each (src_block (wrapped_model model)) [0..<Suc n] st = Inr ?s'"
    by (simp only: for_each_upt_Suc s step sum.case)
  have b: "idxs ?s' = idxs st + Suc n * (n_heads (cfg (wrapped_model model)) + L)"
    by (simp add: i l)
  have c: "map idx (nodes ?s') = [0..<idxs ?s']"
    by (rule src_block_idx [OF step m])
  show ?case by (rule exI [of _ ?s']) (intro conjI a b c)
qed

lemma dest_loop:
  assumes st: "map idx (nodes st) = [0..<idxs st]"
  shows "\<exists>st'. for_each (dest_block c) [0..<n] st = Inr st'
           \<and> idxs st' = idxs st + n * (n_heads c + 1)
           \<and> map idx (nodes st') = [0..<idxs st']"
proof (induction n)
  case 0
  with st show ?case by simp
next
  case (Suc n)
  then obtain s where s: "for_each (dest_block c) [0..<n] st = Inr s"
    and i: "idxs s = idxs st + n * (n_heads c + 1)"
    and m: "map idx (nodes s) = [0..<idxs s]"
    by auto
  obtain s' where step: "dest_block c s n = Inr s'" and i': "idxs s' = idxs s + n_heads c + 1"
    by (simp add: dest_block_Inr)
  have a: "for_each (dest_block c) [0..<Suc n] st = Inr s'"
    by (simp only: for_each_upt_Suc s step sum.case)
  have b: "idxs s' = idxs st + Suc n * (n_heads c + 1)"
    by (simp add: i i')
  have c: "map idx (nodes s') = [0..<idxs s']"
    by (rule dest_block_idx [OF step m])
  show ?case by (rule exI [of _ s']) (intro conjI a b c)
qed

lemma idx_upt_facts:
  assumes "map idx ns = [0..<N]"
  shows "card (set ns) = N" and "sorted_wrt (<) (map idx ns)" and "inj_on idx (set ns)"
proof -
  from assms have d: "distinct (map idx ns)" by simp
  then have "distinct ns" by (simp add: distinct_map)
  then have "card (set ns) = length ns" by (rule distinct_card)
  also have "length ns = length (map idx ns)" by simp
  also have "\<dots> = N" by (simp only: assms) simp
  finally show "card (set ns) = N" .
  show "sorted_wrt (<) (map idx ns)" by (simp add: assms)
  from d show "inj_on idx (set ns)" by (simp add: distinct_map)
qed

subsection \<open>Module names and the layer invariant\<close>

lemma block_name_inj: "''blocks.'' @ str_nat b @ sfx = ''blocks.'' @ str_nat b' @ sfx \<Longrightarrow> b = b'"
  by (simp add: str_nat_inj)

lemma attn_result_not_latent_outs:
  "''blocks.'' @ str_nat b @ ''.attn.hook_result'' \<noteq> ''blocks.'' @ str_nat b' @ ''.hook_mlp_out.latent_outs''"
proof
  assume "''blocks.'' @ str_nat b @ ''.attn.hook_result'' = ''blocks.'' @ str_nat b' @ ''.hook_mlp_out.latent_outs''"
  then have "last (''blocks.'' @ str_nat b @ ''.attn.hook_result'')
           = last (''blocks.'' @ str_nat b' @ ''.hook_mlp_out.latent_outs'')"
    by (rule arg_cong)
  then show False by simp
qed

lemma resid_pre_not_block_hook:
  "''blocks.0.hook_resid_pre'' \<noteq> ''blocks.'' @ str_nat b @ ''.attn.hook_result''"
  "''blocks.0.hook_resid_pre'' \<noteq> ''blocks.'' @ str_nat b @ ''.hook_mlp_out.latent_outs''"
proof -
  show "''blocks.0.hook_resid_pre'' \<noteq> ''blocks.'' @ str_nat b @ ''.attn.hook_result''"
  proof
    assume "''blocks.0.hook_resid_pre'' = ''blocks.'' @ str_nat b @ ''.attn.hook_result''"
    then have "last ''blocks.0.hook_resid_pre'' = last (''blocks.'' @ str_nat b @ ''.attn.hook_result'')"
      by (rule arg_cong)
    then show False by simp
  qed
  show "''blocks.0.hook_resid_pre'' \<noteq> ''blocks.'' @ str_nat b @ ''.hook_mlp_out.latent_outs''"
  proof
    assume "''blocks.0.hook_resid_pre'' = ''blocks.'' @ str_nat b @ ''.hook_mlp_out.latent_outs''"
    then have "last ''blocks.0.hook_resid_pre''
             = last (''blocks.'' @ str_nat b @ ''.hook_mlp_out.latent_outs'')"
      by (rule arg_cong)
    then show False by simp
  qed
qed

lemma attn_in_not_mlp_in:
  "''blocks.'' @ str_nat b @ ''.hook_attn_in'' \<noteq> ''blocks.'' @ str_nat b' @ ''.hook_mlp_in''"
proof
  assume "''blocks.'' @ str_nat b @ ''.hook_attn_in'' = ''blocks.'' @ str_nat b' @ ''.hook_mlp_in''"
  then have "rev (''blocks.'' @ str_nat b @ ''.hook_attn_in'') ! 3
           = rev (''blocks.'' @ str_nat b' @ ''.hook_mlp_in'') ! 3"
    by (rule arg_cong)
  then show False by simp
qed

lemma resid_post_not_block_hook:
  "''blocks.'' @ s @ ''.hook_resid_post'' \<noteq> ''blocks.'' @ str_nat b @ ''.hook_attn_in''"
  "''blocks.'' @ s @ ''.hook_resid_post'' \<noteq> ''blocks.'' @ str_nat b @ ''.hook_mlp_in''"
proof -
  show "''blocks.'' @ s @ ''.hook_resid_post'' \<noteq> ''blocks.'' @ str_nat b @ ''.hook_attn_in''"
  proof
    assume "''blocks.'' @ s @ ''.hook_resid_post'' = ''blocks.'' @ str_nat b @ ''.hook_attn_in''"
    then have "last (''blocks.'' @ s @ ''.hook_resid_post'')
             = last (''blocks.'' @ str_nat b @ ''.hook_attn_in'')"
      by (rule arg_cong)
    then show False by simp
  qed
  show "''blocks.'' @ s @ ''.hook_resid_post'' \<noteq> ''blocks.'' @ str_nat b @ ''.hook_mlp_in''"
  proof
    assume "''blocks.'' @ s @ ''.hook_resid_post'' = ''blocks.'' @ str_nat b @ ''.hook_mlp_in''"
    then have "last (''blocks.'' @ s @ ''.hook_resid_post'')
             = last (''blocks.'' @ str_nat b @ ''.hook_mlp_in'')"
      by (rule arg_cong)
    then show False by simp
  qed
qed


lemma layer_inv_step:
  assumes inv: "layer_inv A M par b l old"
    and injA: "\<And>b b'. A b = A b' \<Longrightarrow> b = b'"
    and injM: "\<And>b b'. M b = M b' \<Longrightarrow> b = b'"
    and AM: "\<And>b b'. A b \<noteq> M b'"
    and hs: "\<forall>x\<in>set hs. layer x = l \<and> module_name_attr x = A b"
    and ms: "\<forall>x\<in>set ms. layer x = (if par then l else Suc l) \<and> module_name_attr x = M b"
  shows "layer_inv A M par (Suc b) (l + (if par then 1 else 2)) (old @ hs @ ms)"
proof -
  from inv have srt: "sorted (map layer old)"
    and lt: "\<forall>x\<in>set old. layer x < l"
    and blk: "\<forall>x\<in>set old. \<forall>b'. module_name_attr x = A b' \<or> module_name_attr x = M b' \<longrightarrow> b' < b"
    and rel: "\<forall>a\<in>set old. \<forall>m\<in>set old. \<forall>b'.
           module_name_attr a = A b' \<and> module_name_attr m = M b'
           \<longrightarrow> layer m = (if par then layer a else Suc (layer a))"
    by (simp_all add: layer_inv_def)
  have s_hs: "sorted (map layer hs)"
    using hs by (simp add: sorted_wrt_iff_nth_less)
  have s_ms: "sorted (map layer ms)"
    using ms by (simp add: sorted_wrt_iff_nth_less)
  have 1: "sorted (map layer (old @ hs @ ms))"
    using srt s_hs s_ms lt hs ms by (fastforce simp: sorted_append)
  have 2: "\<forall>x\<in>set (old @ hs @ ms). layer x < l + (if par then 1 else 2)"
    using lt hs ms by fastforce
  have 3: "\<forall>x\<in>set (old @ hs @ ms). \<forall>b'.
             module_name_attr x = A b' \<or> module_name_attr x = M b' \<longrightarrow> b' < Suc b"
  proof (intro ballI allI impI)
    fix x b'
    assume x: "x \<in> set (old @ hs @ ms)"
      and n: "module_name_attr x = A b' \<or> module_name_attr x = M b'"
    from x consider "x \<in> set old" | "x \<in> set hs" | "x \<in> set ms" by auto
    then show "b' < Suc b"
    proof cases
      case 1
      with blk n show ?thesis by (meson less_Suc_eq)
    next
      case 2
      with hs have "module_name_attr x = A b" by simp
      with n injA AM have "b' = b" by metis
      then show ?thesis by simp
    next
      case 3
      with ms have "module_name_attr x = M b" by simp
      with n injM AM have "b' = b" by metis
      then show ?thesis by simp
    qed
  qed
  have 4: "\<forall>a\<in>set (old @ hs @ ms). \<forall>m\<in>set (old @ hs @ ms). \<forall>b'.
           module_name_attr a = A b' \<and> module_name_attr m = M b'
           \<longrightarrow> layer m = (if par then layer a else Suc (layer a))"
  proof (intro ballI allI impI)
    fix a m b'
    assume a: "a \<in> set (old @ hs @ ms)" and m: "m \<in> set (old @ hs @ ms)"
      and n: "module_name_attr a = A b' \<and> module_name_attr m = M b'"
    have a_ms: "a \<notin> set ms"
      using ms n AM by metis
    have m_hs: "m \<notin> set hs"
      using hs n AM by metis
    show "layer m = (if par then layer a else Suc (layer a))"
    proof (cases "a \<in> set old")
      case True
      with blk n have b': "b' < b" by blast
      have "m \<notin> set ms"
      proof
        assume "m \<in> set ms"
        with ms have "module_name_attr m = M b" by simp
        with n injM have "b' = b" by metis
        with b' show False by simp
      qed
      with m m_hs have "m \<in> set old" by simp
      with True rel n show ?thesis by blast
    next
      case False
      with a a_ms have ah: "a \<in> set hs" by simp
      with hs n injA have b': "b' = b" by metis
      have "m \<notin> set old"
      proof
        assume "m \<in> set old"
        with blk n have "b' < b" by blast
        with b' show False by simp
      qed
      with m m_hs have "m \<in> set ms" by simp
      with ms ah hs show ?thesis by simp
    qed
  qed
  from 1 2 3 4 show ?thesis unfolding layer_inv_def by blast
qed


lemma src_block_layer_inv:
  assumes "src_block m s b = Inr s'"
    and "layer_inv (\<lambda>b. ''blocks.'' @ str_nat b @ ''.attn.hook_result'')
           (\<lambda>b. ''blocks.'' @ str_nat b @ ''.hook_mlp_out.latent_outs'')
           (parallel_attn_mlp (cfg m)) b (layers s) (nodes s)"
  shows "layer_inv (\<lambda>b. ''blocks.'' @ str_nat b @ ''.attn.hook_result'')
           (\<lambda>b. ''blocks.'' @ str_nat b @ ''.hook_mlp_out.latent_outs'')
           (parallel_attn_mlp (cfg m)) (Suc b) (layers s') (nodes s')"
proof -
  from assms(1) obtain sae where "b < length (blocks m)"
    and "hook_mlp_out (blocks m ! b) = Autoencoder sae"
    by (rule src_block_cases)
  from src_block_Inr [OF this, of s] assms(1)
  have s': "s' = \<lparr>layers = layers s + (if parallel_attn_mlp (cfg m) then 1 else 2),
          idxs = idxs s + n_heads (cfg m) + n_latents sae,
          nodes = nodes s
            @ map (\<lambda>h. attn_src_node b h (layers s) (idxs s + h)) [0..<n_heads (cfg m)]
            @ map (\<lambda>k. latent_src_node b k
                          (if parallel_attn_mlp (cfg m) then layers s else Suc (layers s))
                          (idxs s + n_heads (cfg m) + k)) [0..<n_latents sae]\<rparr>"
    by simp
  have "layer_inv (\<lambda>b. ''blocks.'' @ str_nat b @ ''.attn.hook_result'')
           (\<lambda>b. ''blocks.'' @ str_nat b @ ''.hook_mlp_out.latent_outs'')
           (parallel_attn_mlp (cfg m)) (Suc b)
           (layers s + (if parallel_attn_mlp (cfg m) then 1 else 2))
           (nodes s
            @ map (\<lambda>h. attn_src_node b h (layers s) (idxs s + h)) [0..<n_heads (cfg m)]
            @ map (\<lambda>k. latent_src_node b k
                          (if parallel_attn_mlp (cfg m) then layers s else Suc (layers s))
                          (idxs s + n_heads (cfg m) + k)) [0..<n_latents sae])"
  proof (rule layer_inv_step [OF assms(2)])
    show "\<forall>x\<in>set (map (\<lambda>h. attn_src_node b h (layers s) (idxs s + h)) [0..<n_heads (cfg m)]).
            layer x = layers s \<and> module_name_attr x = ''blocks.'' @ str_nat b @ ''.attn.hook_result''"
      by (simp add: attn_src_node_def)
    show "\<forall>x\<in>set (map (\<lambda>k. latent_src_node b k
                          (if parallel_attn_mlp (cfg m) then layers s else Suc (layers s))
                          (idxs s + n_heads (cfg m) + k)) [0..<n_latents sae]).
            layer x = (if parallel_attn_mlp (cfg m) then layers s else Suc (layers s))
            \<and> module_name_attr x = ''blocks.'' @ str_nat b @ ''.hook_mlp_out.latent_outs''"
      by (simp add: latent_src_node_def)
  qed (simp_all add: str_nat_inj attn_result_not_latent_outs)
  with s' show ?thesis by simp
qed

lemma dest_block_layer_inv:
  assumes "dest_block c s b = Inr s'"
    and "layer_inv (\<lambda>b. ''blocks.'' @ str_nat b @ ''.hook_attn_in'')
           (\<lambda>b. ''blocks.'' @ str_nat b @ ''.hook_mlp_in'')
           (parallel_attn_mlp c) b (layers s) (nodes s)"
  shows "layer_inv (\<lambda>b. ''blocks.'' @ str_nat b @ ''.hook_attn_in'')
           (\<lambda>b. ''blocks.'' @ str_nat b @ ''.hook_mlp_in'')
           (parallel_attn_mlp c) (Suc b) (layers s') (nodes s')"
proof -
  from assms(1)
  have s': "s' = \<lparr>layers = layers s + (if parallel_attn_mlp c then 1 else 2),
          idxs = idxs s + n_heads c + 1,
          nodes = nodes s
            @ map (\<lambda>h. attn_dest_node b h (layers s) (idxs s + h)) [0..<n_heads c]
            @ [mlp_dest_node b (if parallel_attn_mlp c then layers s else Suc (layers s))
                 (idxs s + n_heads c)]\<rparr>"
    by (simp add: dest_block_Inr)
  have "layer_inv (\<lambda>b. ''blocks.'' @ str_nat b @ ''.hook_attn_in'')
           (\<lambda>b. ''blocks.'' @ str_nat b @ ''.hook_mlp_in'')
           (parallel_attn_mlp c) (Suc b)
           (layers s + (if parallel_attn_mlp c then 1 else 2))
           (nodes s
            @ map (\<lambda>h. attn_dest_node b h (layers s) (idxs s + h)) [0..<n_heads c]
            @ [mlp_dest_node b (if parallel_attn_mlp c then layers s else Suc (layers s))
                 (idxs s + n_heads c)])"
  proof (rule layer_inv_step [OF assms(2)])
    show "\<forall>x\<in>set (map (\<lambda>h. attn_dest_node b h (layers s) (idxs s + h)) [0..<n_heads c]).
            layer x = layers s \<and> module_name_attr x = ''blocks.'' @ str_nat b @ ''.hook_attn_in''"
      by (simp add: attn_dest_node_def)
    show "\<forall>x\<in>set [mlp_dest_node b (if parallel_attn_mlp c then layers s else Suc (layers s))
                 (idxs s + n_heads c)].
            layer x = (if parallel_attn_mlp c then layers s else Suc (layers s))
            \<and> module_name_attr x = ''blocks.'' @ str_nat b @ ''.hook_mlp_in''"
      by (simp add: mlp_dest_node_def)
  qed (simp_all add: str_nat_inj attn_in_not_mlp_in)
  with s' show ?thesis by simp
qed

lemma src_enumeration_layer_inv:
  assumes "src_enumeration model = Inr srcs"
  shows "\<exists>l. layer_inv (\<lambda>b. ''blocks.'' @ str_nat b @ ''.attn.hook_result'')
           (\<lambda>b. ''blocks.'' @ str_nat b @ ''.hook_mlp_out.latent_outs'')
           (parallel_attn_mlp (cfg (wrapped_model model)))
           (n_layers (cfg (wrapped_model model))) l srcs"
proof -
  let ?m = "wrapped_model model"
  let ?s1 = "\<lparr>layers = Suc 0, idxs = Suc 0, nodes = [resid_start 0 0]\<rparr>"
  from assms obtain st where st: "for_each (src_block ?m) [0..<n_layers (cfg ?m)] ?s1 = Inr st"
    and srcs: "srcs = nodes st"
    by (auto simp: src_enumeration_def cfg_property_def Let_def add_node_def
        split: if_splits sum.splits)
  have init: "layer_inv (\<lambda>b. ''blocks.'' @ str_nat b @ ''.attn.hook_result'')
           (\<lambda>b. ''blocks.'' @ str_nat b @ ''.hook_mlp_out.latent_outs'')
           (parallel_attn_mlp (cfg ?m)) 0 (layers ?s1) (nodes ?s1)"
    using resid_pre_not_block_hook by (simp add: layer_inv_def resid_start_def)
  have "layer_inv (\<lambda>b. ''blocks.'' @ str_nat b @ ''.attn.hook_result'')
           (\<lambda>b. ''blocks.'' @ str_nat b @ ''.hook_mlp_out.latent_outs'')
           (parallel_attn_mlp (cfg ?m)) (n_layers (cfg ?m)) (layers st) (nodes st)"
    by (rule for_each_upt_induct [OF st, where P = "\<lambda>b s. layer_inv
           (\<lambda>b. ''blocks.'' @ str_nat b @ ''.attn.hook_result'')
           (\<lambda>b. ''blocks.'' @ str_nat b @ ''.hook_mlp_out.latent_outs'')
           (parallel_attn_mlp (cfg ?m)) b (layers s) (nodes s)"])
       (rule init, rule src_block_layer_inv)
  with srcs show ?thesis by blast
qed


lemma dest_enumeration_layer_inv:
  assumes "dest_enumeration model = Inr dests"
  shows "\<exists>l. layer_inv (\<lambda>b. ''blocks.'' @ str_nat b @ ''.hook_attn_in'')
           (\<lambda>b. ''blocks.'' @ str_nat b @ ''.hook_mlp_in'')
           (parallel_attn_mlp (cfg (wrapped_model model)))
           (n_layers (cfg (wrapped_model model))) l dests"
proof -
  let ?c = "cfg (wrapped_model model)"
  let ?s0 = "\<lparr>layers = Suc 0, idxs = 0, nodes = []\<rparr>"
  let ?A = "\<lambda>b. ''blocks.'' @ str_nat b @ ''.hook_attn_in''"
  let ?M = "\<lambda>b. ''blocks.'' @ str_nat b @ ''.hook_mlp_in''"
  from assms obtain st where st: "for_each (dest_block ?c) [0..<n_layers ?c] ?s0 = Inr st"
    and dests: "dests = nodes st @ [resid_end (n_layers ?c) (layers st) (idxs st)]"
    by (auto simp: dest_enumeration_def cfg_property_def Let_def add_node_def
        split: if_splits sum.splits)
  have init: "layer_inv ?A ?M (parallel_attn_mlp ?c) 0 (layers ?s0) (nodes ?s0)"
    by (simp add: layer_inv_def)
  have inv: "layer_inv ?A ?M (parallel_attn_mlp ?c) (n_layers ?c) (layers st) (nodes st)"
    by (rule for_each_upt_induct [OF st, where P = "\<lambda>b s. layer_inv ?A ?M
           (parallel_attn_mlp ?c) b (layers s) (nodes s)"])
       (rule init, rule dest_block_layer_inv)
  let ?r = "resid_end (n_layers ?c) (layers st) (idxs st)"
  have r: "module_name_attr ?r \<noteq> ?A b" "module_name_attr ?r \<noteq> ?M b" for b
    using resid_post_not_block_hook [of "str_int (int (n_layers ?c) - 1)" b]
    by (simp_all add: resid_end_def)
  from inv have "layer_inv ?A ?M (parallel_attn_mlp ?c) (n_layers ?c) (Suc (layers st))
                   (nodes st @ [?r])"
    unfolding layer_inv_def using r
    by (auto simp: sorted_append less_Suc_eq less_imp_le)
  with dests show ?thesis by blast
qed

subsection \<open>autoencoder\_model with the default capture point\<close>

text \<open>
  With \<^verbatim>\<open>sae_input = "resid_delta_mlp"\<close> every block's \<^verbatim>\<open>hook_mlp_out\<close> becomes the
  autoencoder loaded for it, under either reading of \<^verbatim>\<open>setattr\<close>.
\<close>

lemma install_resid_delta_loop:
  assumes acc: "\<forall>old sae. setattr old (Autoencoder sae) = Inr (Autoencoder sae)"
    and k: "k \<le> length (blocks model)"
  shows "\<exists>m' saes.
      for_each (install_autoencoder load_autoencoder setattr ''resid_delta_mlp'' pythia_size)
        [0..<k] (model, []) = Inr (m', saes)
      \<and> cfg m' = cfg model \<and> length (blocks m') = length (blocks model) \<and> length saes = k
      \<and> (\<forall>i<k. hook_mlp_out (blocks m' ! i) = Autoencoder (saes ! i))"
  using k
proof (induction k)
  case 0
  then show ?case by simp
next
  case (Suc k)
  then obtain m' saes where
    loop: "for_each (install_autoencoder load_autoencoder setattr ''resid_delta_mlp'' pythia_size)
        [0..<k] (model, []) = Inr (m', saes)"
    and c: "cfg m' = cfg model" and len: "length (blocks m') = length (blocks model)"
    and ls: "length saes = k"
    and inst: "\<forall>i<k. hook_mlp_out (blocks m' ! i) = Autoencoder (saes ! i)"
    by auto
  from Suc.prems len have kb: "k < length (blocks m')" by simp
  let ?sae = "load_autoencoder (hook_mlp_out (blocks m' ! k)) m' k ''resid_delta_mlp'' pythia_size"
  let ?m'' = "m'\<lparr>blocks := (blocks m')[k := (blocks m' ! k)\<lparr>hook_mlp_out := Autoencoder ?sae\<rparr>]\<rparr>"
  have step: "install_autoencoder load_autoencoder setattr ''resid_delta_mlp'' pythia_size
                (m', saes) k = Inr (?m'', saes @ [?sae])"
    using kb by (simp add: install_autoencoder_def Let_def acc)
  have a: "for_each (install_autoencoder load_autoencoder setattr ''resid_delta_mlp'' pythia_size)
        [0..<Suc k] (model, []) = Inr (?m'', saes @ [?sae])"
    by (simp only: for_each_upt_Suc loop step sum.case)
  have b: "\<forall>i<Suc k. hook_mlp_out (blocks ?m'' ! i) = Autoencoder ((saes @ [?sae]) ! i)"
  proof (intro allI impI)
    fix i assume "i < Suc k"
    then consider "i < k" | "i = k" by linarith
    then show "hook_mlp_out (blocks ?m'' ! i) = Autoencoder ((saes @ [?sae]) ! i)"
    proof cases
      case 1
      with inst ls show ?thesis by (simp add: nth_append)
    next
      case 2
      with kb ls show ?thesis by (simp add: nth_append)
    qed
  qed
  show ?case
    by (rule exI [of _ ?m''], rule exI [of _ "saes @ [?sae]"])
       (use a b c len ls in simp)
qed

lemma autoencoder_model_resid_delta_mlp:
  assumes "\<forall>old sae. setattr old (Autoencoder sae) = Inr (Autoencoder sae)"
    and "length (blocks model) = n_layers (cfg model)"
  shows "\<exists>wrapped. autoencoder_model load_autoencoder setattr model ''resid_delta_mlp''
                pythia_size new_instance = Inr wrapped
      \<and> length (sparse_autoencoders wrapped) = n_layers (cfg model)
      \<and> (\<forall>i<n_layers (cfg model).
            hook_mlp_out (blocks (wrapped_model wrapped) ! i)
              = Autoencoder (sparse_autoencoders wrapped ! i))"
proof -
  from install_resid_delta_loop [OF assms(1), where k = "n_layers (cfg model)"
      and model = model and load_autoencoder = load_autoencoder
      and pythia_size = pythia_size] assms(2)
  obtain m' saes where
    "for_each (install_autoencoder load_autoencoder setattr ''resid_delta_mlp'' pythia_size)
        [0..<n_layers (cfg model)] (model, []) = Inr (m', saes)"
    and "length saes = n_layers (cfg model)"
    and "\<forall>i<n_layers (cfg model). hook_mlp_out (blocks m' ! i) = Autoencoder (saes ! i)"
    by auto
  then show ?thesis
    by (simp add: autoencoder_model_def deepcopy_def init_def)
qed

subsection \<open>run\_pruned: checkpoints beyond the edges\<close>

lemma for_each_invariant:
  assumes "for_each body xs st = Inr st'" and "P st"
    and "\<And>s x s'. P s \<Longrightarrow> body s x = Inr s' \<Longrightarrow> P s'"
  shows "P st'"
  using assms(1,2)
proof (induction xs arbitrary: st)
  case Nil
  then show ?case by simp
next
  case (Cons x xs)
  from Cons.prems(1) obtain s where s: "body st x = Inr s" and r: "for_each body xs s = Inr st'"
    by (auto split: sum.splits)
  from Cons.prems(2) s have "P s" by (rule assms(3))
  with r show ?case by (rule Cons.IH)
qed

lemma length_sort_prune_scores [simp]: "length (sort_prune_scores ps) = length ps"
  by (simp add: sort_prune_scores_def)

lemma record_output_other:
  "n \<noteq> k \<Longrightarrow> snd (record_output C n x st) k = snd st k"
  by (simp add: record_output_def append_out_def Let_def)

lemma activate_edges_removeAll:
  "edge_idx + length es < k \<Longrightarrow>
   activate_edges C (removeAll k tec) x edge_idx es st = activate_edges C tec x edge_idx es st"
proof (induction es arbitrary: edge_idx st)
  case Nil
  then show ?case by simp
next
  case (Cons e es)
  from Cons.prems have "edge_idx + 1 \<noteq> k" and "(edge_idx + 1) + length es < k" by simp_all
  with Cons.IH [of "edge_idx + 1"] show ?case by (simp add: Let_def)
qed

lemma activate_edges_beyond:
  "edge_idx + length es < k \<Longrightarrow> snd (activate_edges C tec x edge_idx es st) k = snd st k"
proof (induction es arbitrary: edge_idx st)
  case Nil
  then show ?case by simp
next
  case (Cons e es)
  from Cons.prems have ne: "edge_idx + 1 \<noteq> k" and lt: "(edge_idx + 1) + length es < k"
    by simp_all
  show ?case
    using Cons.IH [OF lt] ne by (simp add: Let_def record_output_other)
qed

lemma process_batch_removeAll:
  assumes "length ps < k"
  shows "process_batch C ex (removeAll k tec) ps rg st batch = process_batch C ex tec ps rg st batch"
proof -
  from assms have k: "k \<noteq> 0" by simp
  from assms have "0 + length (map fst ps) < k" by simp
  then have "activate_edges C (removeAll k tec) x 0 (map fst ps) s
           = activate_edges C tec x 0 (map fst ps) s" for x s
    by (rule activate_edges_removeAll)
  with k show ?thesis
    by (simp add: process_batch_def Let_def cong: sum.case_cong if_cong)
qed

lemma process_batch_beyond:
  assumes "length ps < k" and "process_batch C ex tec ps rg st batch = Inr st'"
  shows "snd st' k = snd st k"
proof -
  from assms(1) have k: "0 \<noteq> k" by simp
  from assms(1) have lt: "0 + length (map fst ps) < k" by simp
  from assms(2) k show ?thesis
    by (auto simp: process_batch_def Let_def activate_edges_beyond [OF lt] record_output_other
        split: sum.splits if_splits)
qed

text \<open>The small instance, evaluated on one batch with the checkpoints 0, 2 and 5.\<close>

lemma demo_run:
  "run_pruned demo_collaborators demo_model [\<lparr>clean = 7, corrupt = 8\<rparr>]
       \<lparr>input_type = CLEAN, patch_type = CORRUPT\<rparr> [0, 2, 5] [(0, 1), (1, 3), (2, 2)] False
   = Inr ([0 \<mapsto> [[7]], 2 \<mapsto> [[7, 0, 1, 1]]],
          \<lparr>patch_mask = (\<lambda>e. if e = 0 \<or> e = 1 \<or> e = 2 then 1 else 0), patch_ctx = None,
           trace = [SortPruneScores, Forward 7, AppendOut 0, GetSortedSrcOuts 8, EnterPatchMode,
                    SetPatchMask 1, SetPatchMask 2, Forward 7, AppendOut 2, SetPatchMask 0,
                    ExitPatchMode]\<rparr>)"
  by (simp add: run_pruned_def process_batch_def batch_input_of_def patch_outs_of_def
      patch_input_of_def record_output_def call_model_def enter_patch_mode_def
      exit_patch_mode_def log_event_def append_out_def sort_prune_scores_def
      demo_collaborators_def demo_model_def Let_def fun_eq_iff)

subsection \<open>run\_pruned: one batch\<close>

lemma mask_of_snoc: "(mask_of es)(e := 1) = mask_of (es @ [e])"
  by (auto simp: mask_of_def fun_eq_iff)

lemma mask_of_snoc': "(mask_of es)(e := Suc 0) = mask_of (es @ [e])"
  by (auto simp: mask_of_def fun_eq_iff)

lemma mask_writes_append [simp]: "mask_writes (xs @ ys) = mask_writes xs @ mask_writes ys"
  by (induction xs rule: mask_writes.induct) simp_all

lemma mask_writes_edge_events [simp]: "mask_writes (edge_events tec x i es) = es"
  by (induction es arbitrary: i) simp_all

lemma edge_events_set:
  "ev \<in> set (edge_events tec x i es) \<Longrightarrow>
     (\<exists>e\<in>set es. ev = SetPatchMask e) \<or> ev = Forward x
     \<or> (\<exists>n. ev = AppendOut n \<and> i < n \<and> n \<le> i + length es \<and> n \<in> set tec)"
proof (induction es arbitrary: i)
  case Nil
  then show ?case by simp
next
  case (Cons e es)
  from Cons.prems consider "ev = SetPatchMask e"
    | "i + 1 \<in> set tec" "ev = Forward x \<or> ev = AppendOut (i + 1)"
    | "ev \<in> set (edge_events tec x (i + 1) es)"
    by (auto split: if_splits)
  then show ?case
  proof cases
    case 1
    then show ?thesis by simp
  next
    case 2
    then show ?thesis by auto
  next
    case 3
    from Cons.IH [OF this] show ?thesis by auto
  qed
qed

lemma activate_edges_fst:
  "fst (activate_edges C tec x i es (w, outs)) =
     w\<lparr>patch_mask := (\<lambda>e. if e \<in> set es then 1 else patch_mask w e),
       trace := trace w @ edge_events tec x i es\<rparr>"
proof (induction es arbitrary: i w outs)
  case Nil
  show ?case by simp
next
  case (Cons e es)
  show ?case
    unfolding activate_edges.simps Let_def
    by (simp add: Cons.IH record_output_def log_event_def Let_def fun_eq_iff)
qed

lemma activate_edges_snd:
  assumes "patch_mask w = mask_of done" and "patch_ctx w = Some (c, p)"
  shows "snd (activate_edges C tec x (length done) es (w, outs)) n =
     (if n \<in> set tec \<and> length done < n \<and> n \<le> length done + length es
      then Some ((case outs n of None \<Rightarrow> [] | Some xs \<Rightarrow> xs)
                 @ [out_slice C (patched_forward C (mask_of (take n (done @ es))) c p x)])
      else outs n)"
  using assms
proof (induction es arbitrary: "done" w outs)
  case Nil
  show ?case by auto
next
  case (Cons e es)
  let ?w1 = "log_event (SetPatchMask e) (w\<lparr>patch_mask := (patch_mask w)(e := 1)\<rparr>)"
  have m1: "patch_mask ?w1 = mask_of (done @ [e])"
    by (simp add: log_event_def Cons.prems(1) mask_of_snoc')
  have c1: "patch_ctx ?w1 = Some (c, p)"
    by (simp add: log_event_def Cons.prems(2))
  have l: "length done + 1 = length (done @ [e])" by simp
  show ?case
  proof (cases "length done + 1 \<in> set tec")
    case False
    have "snd (activate_edges C tec x (length done) (e # es) (w, outs)) n
        = snd (activate_edges C tec x (length (done @ [e])) es (?w1, outs)) n"
      using False by (simp add: Let_def)
    also have "\<dots> = (if n \<in> set tec \<and> length (done @ [e]) < n
                        \<and> n \<le> length (done @ [e]) + length es
      then Some ((case outs n of None \<Rightarrow> [] | Some xs \<Rightarrow> xs)
                 @ [out_slice C (patched_forward C (mask_of (take n ((done @ [e]) @ es))) c p x)])
      else outs n)"
      by (rule Cons.IH [OF m1 c1])
    finally show ?thesis
      using False by (cases "n = Suc (length done)") auto
  next
    case True
    let ?o1 = "append_out outs (length done + 1) (out_slice C (call_model C ?w1 x))"
    let ?w2 = "log_event (AppendOut (length done + 1)) (log_event (Forward x) ?w1)"
    have m2: "patch_mask ?w2 = mask_of (done @ [e])"
      using m1 by (simp add: log_event_def)
    have c2: "patch_ctx ?w2 = Some (c, p)"
      using c1 by (simp add: log_event_def)
    have call: "call_model C ?w1 x = patched_forward C (mask_of (done @ [e])) c p x"
      using m1 c1 by (simp add: call_model_def)
    have "snd (activate_edges C tec x (length done) (e # es) (w, outs)) n
        = snd (activate_edges C tec x (length (done @ [e])) es (?w2, ?o1)) n"
      using True by (simp add: Let_def record_output_def)
    also have "\<dots> = (if n \<in> set tec \<and> length (done @ [e]) < n
                        \<and> n \<le> length (done @ [e]) + length es
      then Some ((case ?o1 n of None \<Rightarrow> [] | Some xs \<Rightarrow> xs)
                 @ [out_slice C (patched_forward C (mask_of (take n ((done @ [e]) @ es))) c p x)])
      else ?o1 n)"
      by (rule Cons.IH [OF m2 c2])
    finally show ?thesis
      using True by (cases "n = Suc (length done)") (auto simp: append_out_def call [unfolded One_nat_def])
  qed
qed


lemma model_state_sel_upd:
  "patch_mask (v\<lparr>patch_mask := m, trace := t\<rparr>) = m"
  "trace (v\<lparr>patch_mask := m, trace := t\<rparr>) = t"
  "patch_ctx (v\<lparr>patch_mask := m, trace := t\<rparr>) = patch_ctx v"
  by simp_all

lemma process_batch_char:
  assumes pb: "process_batch C ex tec ps rg (w, outs) batch = Inr (w', outs')"
    and ctx: "patch_ctx w = None"
  shows "\<exists>x po. batch_input_of ex batch = Inr x \<and> patch_outs_of C ex batch = Inr po \<and> po \<noteq> []
    \<and> patch_ctx w' = None \<and> patch_mask w' = mask_of (map fst ps)
    \<and> trace w' = trace w @ (if 0 \<in> set tec then [Forward x, AppendOut 0] else [])
          @ [GetSortedSrcOuts (patch_input_of ex batch), EnterPatchMode]
          @ edge_events tec x 0 (map fst ps)
          @ (if rg then [DrawSeqGraph] else []) @ [ExitPatchMode]
    \<and> (\<forall>n. outs' n =
          (if n \<in> set tec \<and> n \<le> length ps
           then Some ((case outs n of None \<Rightarrow> [] | Some xs \<Rightarrow> xs)
                  @ [out_slice C
                       (if n = 0 then unpatched_forward C x
                        else patched_forward C (mask_of (take n (map fst ps)))
                               (zeros_like C (stack C (map snd po))) (stack C (map snd po)) x)])
           else outs n))"
proof -
  from pb obtain x where x: "batch_input_of ex batch = Inr x"
    by (auto simp: process_batch_def split: sum.splits)
  from pb x obtain po where po: "patch_outs_of C ex batch = Inr po"
    by (auto simp: process_batch_def Let_def split: sum.splits)
  from pb x po have ne: "po \<noteq> []"
    by (auto simp: process_batch_def Let_def split: if_splits)
  let ?st1 = "if 0 \<in> set tec then record_output C 0 x (w, outs) else (w, outs)"
  let ?p = "stack C (map snd po)"
  let ?c = "zeros_like C ?p"
  let ?w1 = "log_event (GetSortedSrcOuts (patch_input_of ex batch)) (fst ?st1)"
  let ?w2 = "enter_patch_mode ?c ?p ?w1"
  let ?st3 = "activate_edges C tec x 0 (map fst ps) (?w2, snd ?st1)"
  have res: "(w', outs') =
      (if rg then (exit_patch_mode (log_event DrawSeqGraph (fst ?st3)), snd ?st3)
       else (exit_patch_mode (fst ?st3), snd ?st3))"
    using pb x po ne
    by (auto simp: process_batch_def Let_def split: if_splits sum.splits)
  have m2: "patch_mask ?w2 = mask_of []"
    by (simp add: enter_patch_mode_def log_event_def mask_of_def)
  have c2: "patch_ctx ?w2 = Some (?c, ?p)"
    by (simp add: enter_patch_mode_def log_event_def)
  have t1: "trace (fst ?st1) = trace w @ (if 0 \<in> set tec then [Forward x, AppendOut 0] else [])"
    by (simp add: record_output_def log_event_def Let_def)
  have t2: "trace ?w2 = trace (fst ?st1) @ [GetSortedSrcOuts (patch_input_of ex batch), EnterPatchMode]"
    by (simp add: enter_patch_mode_def log_event_def)
  have f3: "fst ?st3 = ?w2\<lparr>patch_mask := (\<lambda>e. if e \<in> set (map fst ps) then 1 else patch_mask ?w2 e),
                          trace := trace ?w2 @ edge_events tec x 0 (map fst ps)\<rparr>"
    by (rule activate_edges_fst)
  have m3: "patch_mask (fst ?st3) = mask_of (map fst ps)"
    unfolding f3 model_state_sel_upd m2 by (auto simp: mask_of_def fun_eq_iff)
  have t3: "trace (fst ?st3) = trace w @ (if 0 \<in> set tec then [Forward x, AppendOut 0] else [])
          @ [GetSortedSrcOuts (patch_input_of ex batch), EnterPatchMode]
          @ edge_events tec x 0 (map fst ps)"
    unfolding f3 model_state_sel_upd t2 t1 by simp
  have o1: "snd ?st1 n =
      (if n = 0 \<and> 0 \<in> set tec
       then Some ((case outs 0 of None \<Rightarrow> [] | Some xs \<Rightarrow> xs) @ [out_slice C (unpatched_forward C x)])
       else outs n)" for n
    by (simp add: record_output_def append_out_def call_model_def ctx Let_def)
  have o3: "snd ?st3 n =
     (if n \<in> set tec \<and> length ([]::'a list) < n \<and> n \<le> length ([]::'a list) + length (map fst ps)
      then Some ((case snd ?st1 n of None \<Rightarrow> [] | Some xs \<Rightarrow> xs)
                 @ [out_slice C (patched_forward C (mask_of (take n ([] @ map fst ps))) ?c ?p x)])
      else snd ?st1 n)" for n
    using activate_edges_snd [OF m2 c2, of C tec x "map fst ps" "snd ?st1" n] by simp
  have outs: "outs' n =
          (if n \<in> set tec \<and> n \<le> length ps
           then Some ((case outs n of None \<Rightarrow> [] | Some xs \<Rightarrow> xs)
                  @ [out_slice C
                       (if n = 0 then unpatched_forward C x
                        else patched_forward C (mask_of (take n (map fst ps))) ?c ?p x)])
           else outs n)" for n
  proof -
    from res have "outs' n = snd ?st3 n" by (simp split: if_splits)
    also note o3 [of n]
    finally show ?thesis by (cases "n = 0") (simp_all add: o1)
  qed
  have w'c: "patch_ctx w' = None"
    using res by (simp add: exit_patch_mode_def log_event_def split: if_splits)
  have w'm: "patch_mask w' = mask_of (map fst ps)"
    using res m3 by (simp add: exit_patch_mode_def log_event_def split: if_splits)
  have w't: "trace w' = trace w @ (if 0 \<in> set tec then [Forward x, AppendOut 0] else [])
          @ [GetSortedSrcOuts (patch_input_of ex batch), EnterPatchMode]
          @ edge_events tec x 0 (map fst ps)
          @ (if rg then [DrawSeqGraph] else []) @ [ExitPatchMode]"
    using res t3 by (simp add: exit_patch_mode_def log_event_def split: if_splits)
  from x po ne w'c w'm w't outs show ?thesis by blast
qed

subsection \<open>run\_pruned: all batches\<close>

lemma batch_input_of_chosen:
  "batch_input_of ex batch = Inr x \<Longrightarrow> x = chosen_input ex batch"
  by (cases "input_type ex") (auto simp: batch_input_of_def chosen_input_def)

lemma process_batch_result:
  assumes pb: "process_batch C ex tec ps rg (w, outs) batch = Inr (w', outs')"
    and ctx: "patch_ctx w = None"
  shows "batch_input_of ex batch = Inr (chosen_input ex batch)"
    and "patch_ctx w' = None"
    and "patch_mask w' = mask_of (map fst ps)"
    and "trace w' = trace w @ batch_events ex tec rg (map fst ps) batch"
    and "outs' n =
          (if n \<in> set tec \<and> n \<le> length ps
           then Some ((case outs n of None \<Rightarrow> [] | Some xs \<Rightarrow> xs)
                      @ [checkpoint_output C ex (map fst ps) n batch])
           else outs n)"
proof -
  from process_batch_char [OF pb ctx]
  obtain x po where x: "batch_input_of ex batch = Inr x"
    and po: "patch_outs_of C ex batch = Inr po"
    and c: "patch_ctx w' = None" and m: "patch_mask w' = mask_of (map fst ps)"
    and t: "trace w' = trace w @ (if 0 \<in> set tec then [Forward x, AppendOut 0] else [])
          @ [GetSortedSrcOuts (patch_input_of ex batch), EnterPatchMode]
          @ edge_events tec x 0 (map fst ps)
          @ (if rg then [DrawSeqGraph] else []) @ [ExitPatchMode]"
    and o: "\<forall>n. outs' n =
          (if n \<in> set tec \<and> n \<le> length ps
           then Some ((case outs n of None \<Rightarrow> [] | Some xs \<Rightarrow> xs)
                  @ [out_slice C
                       (if n = 0 then unpatched_forward C x
                        else patched_forward C (mask_of (take n (map fst ps)))
                               (zeros_like C (stack C (map snd po))) (stack C (map snd po)) x)])
           else outs n)"
    by blast
  from x have xc: "x = chosen_input ex batch" by (rule batch_input_of_chosen)
  from po have b: "baseline_of C ex batch = stack C (map snd po)"
    by (simp add: baseline_of_def)
  from x xc show "batch_input_of ex batch = Inr (chosen_input ex batch)" by simp
  from c show "patch_ctx w' = None" .
  from m show "patch_mask w' = mask_of (map fst ps)" .
  from t xc show "trace w' = trace w @ batch_events ex tec rg (map fst ps) batch"
    by (simp add: batch_events_def)
  from o have "outs' n =
          (if n \<in> set tec \<and> n \<le> length ps
           then Some ((case outs n of None \<Rightarrow> [] | Some xs \<Rightarrow> xs)
                  @ [out_slice C
                       (if n = 0 then unpatched_forward C x
                        else patched_forward C (mask_of (take n (map fst ps)))
                               (zeros_like C (stack C (map snd po))) (stack C (map snd po)) x)])
           else outs n)"
    by blast
  then show "outs' n =
          (if n \<in> set tec \<and> n \<le> length ps
           then Some ((case outs n of None \<Rightarrow> [] | Some xs \<Rightarrow> xs)
                      @ [checkpoint_output C ex (map fst ps) n batch])
           else outs n)"
    by (simp add: checkpoint_output_def b xc)
qed

lemma batch_loop_result:
  assumes "for_each (process_batch C ex tec ps rg) dl (w, outs) = Inr (w', outs')"
    and "patch_ctx w = None"
  shows "patch_ctx w' = None
    \<and> (\<forall>batch\<in>set dl. batch_input_of ex batch = Inr (chosen_input ex batch))
    \<and> (dl \<noteq> [] \<longrightarrow> patch_mask w' = mask_of (map fst ps))
    \<and> trace w' = trace w @ concat (map (batch_events ex tec rg (map fst ps)) dl)
    \<and> (\<forall>n. outs' n =
          (if n \<in> set tec \<and> n \<le> length ps \<and> dl \<noteq> []
           then Some ((case outs n of None \<Rightarrow> [] | Some xs \<Rightarrow> xs)
                      @ map (checkpoint_output C ex (map fst ps) n) dl)
           else outs n))"
  using assms
proof (induction dl arbitrary: w outs)
  case Nil
  then show ?case by simp
next
  case (Cons b dl)
  from Cons.prems(1) obtain w1 outs1 where
    pb: "process_batch C ex tec ps rg (w, outs) b = Inr (w1, outs1)"
    and rest: "for_each (process_batch C ex tec ps rg) dl (w1, outs1) = Inr (w', outs')"
    by (auto split: sum.splits)
  note r = process_batch_result [OF pb Cons.prems(2)]
  from Cons.IH [OF rest r(2)]
  have c: "patch_ctx w' = None"
    and i: "\<forall>batch\<in>set dl. batch_input_of ex batch = Inr (chosen_input ex batch)"
    and m: "dl \<noteq> [] \<longrightarrow> patch_mask w' = mask_of (map fst ps)"
    and t: "trace w' = trace w1 @ concat (map (batch_events ex tec rg (map fst ps)) dl)"
    and o: "\<forall>n. outs' n =
          (if n \<in> set tec \<and> n \<le> length ps \<and> dl \<noteq> []
           then Some ((case outs1 n of None \<Rightarrow> [] | Some xs \<Rightarrow> xs)
                      @ map (checkpoint_output C ex (map fst ps) n) dl)
           else outs1 n)"
    by blast+
  have m': "patch_mask w' = mask_of (map fst ps)"
  proof (cases "dl = []")
    case True
    with rest r(3) show ?thesis by simp
  next
    case False
    with m show ?thesis by simp
  qed
  have t': "trace w' = trace w @ concat (map (batch_events ex tec rg (map fst ps)) (b # dl))"
    using t r(4) by simp
  have o': "outs' n =
          (if n \<in> set tec \<and> n \<le> length ps \<and> b # dl \<noteq> []
           then Some ((case outs n of None \<Rightarrow> [] | Some xs \<Rightarrow> xs)
                      @ map (checkpoint_output C ex (map fst ps) n) (b # dl))
           else outs n)" for n
    using o [rule_format, of n] r(5) [of n] by (cases "dl = []") auto
  from c i r(1) m' t' o' show ?case by simp
qed

subsection \<open>run\_pruned: the order of the edges and the whole run\<close>

lemma sort_prune_scores_descending:
  "sorted_wrt (\<lambda>a b. snd b \<le> snd a) (sort_prune_scores ps)"
proof -
  have "sorted (map snd (sort_key snd (rev ps)))" by (rule sorted_sort_key)
  then have "sorted_wrt (\<lambda>a b. snd a \<le> snd b) (sort_key snd (rev ps))"
    by (simp add: sorted_map)
  then show ?thesis
    by (simp add: sort_prune_scores_def sorted_wrt_rev)
qed

lemma sort_prune_scores_stable:
  "filter (\<lambda>x. snd x = k) (sort_prune_scores ps) = filter (\<lambda>x. snd x = k) ps"
proof -
  have "filter (\<lambda>x. snd x = k) (sort_prune_scores ps)
      = rev (filter (\<lambda>x. snd x = k) (sort_key snd (rev ps)))"
    by (simp add: sort_prune_scores_def rev_filter)
  also have "\<dots> = rev (filter (\<lambda>x. snd x = k) (rev ps))"
    by (simp only: sort_key_stable)
  also have "\<dots> = filter (\<lambda>x. snd x = k) ps"
    by (simp add: rev_filter)
  finally show ?thesis .
qed

lemma set_sort_prune_scores [simp]: "set (sort_prune_scores ps) = set ps"
  by (simp add: sort_prune_scores_def)

lemma distinct_keys_sort_prune_scores:
  "distinct (map fst (sort_prune_scores ps)) = distinct (map fst ps)"
  by (simp add: distinct_map sort_prune_scores_def)

lemma count_list_distinct: "distinct xs \<Longrightarrow> x \<in> set xs \<Longrightarrow> count_list xs x = 1"
  by (induction xs) auto

lemma edge_events_no_control:
  "SortPruneScores \<notin> set (edge_events tec x i es)"
  "EnterPatchMode \<notin> set (edge_events tec x i es)"
  "GetSortedSrcOuts y \<notin> set (edge_events tec x i es)"
  "AppendOut 0 \<notin> set (edge_events tec x i es)"
  using edge_events_set [of _ tec x i es] by fastforce+

lemma batch_events_facts:
  "SortPruneScores \<notin> set (batch_events ex tec rg es b)"
  "mask_writes (batch_events ex tec rg es b) = es"
  "\<exists>pre post. batch_events ex tec rg es b = pre @ EnterPatchMode # post
      \<and> mask_writes pre = [] \<and> EnterPatchMode \<notin> set post"
proof -
  show "SortPruneScores \<notin> set (batch_events ex tec rg es b)"
    by (simp add: batch_events_def edge_events_no_control)
  show "mask_writes (batch_events ex tec rg es b) = es"
    by (simp add: batch_events_def)
  let ?pre = "(if 0 \<in> set tec then [Forward (chosen_input ex b), AppendOut 0] else [])
              @ [GetSortedSrcOuts (patch_input_of ex b)]"
  let ?post = "edge_events tec (chosen_input ex b) 0 es
               @ (if rg then [DrawSeqGraph] else []) @ [ExitPatchMode]"
  have "batch_events ex tec rg es b = ?pre @ EnterPatchMode # ?post"
    by (simp add: batch_events_def)
  moreover have "mask_writes ?pre = []" by simp
  moreover have "EnterPatchMode \<notin> set ?post" by (simp add: edge_events_no_control)
  ultimately show "\<exists>pre post. batch_events ex tec rg es b = pre @ EnterPatchMode # post
      \<and> mask_writes pre = [] \<and> EnterPatchMode \<notin> set post"
    by blast
qed

lemma run_pruned_result:
  assumes "run_pruned C model dl ex tec ps rg = Inr (pruned_outs, model')"
    and "patch_ctx model = None"
  shows "patch_ctx model' = None"
    and "\<forall>batch\<in>set dl. batch_input_of ex batch = Inr (chosen_input ex batch)"
    and "dl \<noteq> [] \<longrightarrow> patch_mask model' = mask_of (map fst (sort_prune_scores ps))"
    and "trace model' = trace model @ SortPruneScores
           # concat (map (batch_events ex tec rg (map fst (sort_prune_scores ps))) dl)"
    and "pruned_outs n =
          (if n \<in> set tec \<and> n \<le> length ps \<and> dl \<noteq> []
           then Some (map (checkpoint_output C ex (map fst (sort_prune_scores ps)) n) dl)
           else None)"
proof -
  from assms(1) have loop: "for_each (process_batch C ex tec (sort_prune_scores ps) rg) dl
      (log_event SortPruneScores model, Map.empty) = Inr (model', pruned_outs)"
    by (auto simp: run_pruned_def Let_def split: sum.splits)
  have c: "patch_ctx (log_event SortPruneScores model) = None"
    using assms(2) by (simp add: log_event_def)
  note r = batch_loop_result [OF loop c]
  from r show "patch_ctx model' = None" by blast
  from r show "\<forall>batch\<in>set dl. batch_input_of ex batch = Inr (chosen_input ex batch)" by blast
  from r show "dl \<noteq> [] \<longrightarrow> patch_mask model' = mask_of (map fst (sort_prune_scores ps))"
    by blast
  from r have "trace model' = trace (log_event SortPruneScores model)
      @ concat (map (batch_events ex tec rg (map fst (sort_prune_scores ps))) dl)"
    by blast
  then show "trace model' = trace model @ SortPruneScores
           # concat (map (batch_events ex tec rg (map fst (sort_prune_scores ps))) dl)"
    by (simp add: log_event_def)
  from r have "\<forall>n. pruned_outs n =
          (if n \<in> set tec \<and> n \<le> length (sort_prune_scores ps) \<and> dl \<noteq> []
           then Some ((case Map.empty n of None \<Rightarrow> [] | Some xs \<Rightarrow> xs)
                      @ map (checkpoint_output C ex (map fst (sort_prune_scores ps)) n) dl)
           else Map.empty n)"
    by blast
  then show "pruned_outs n =
          (if n \<in> set tec \<and> n \<le> length ps \<and> dl \<noteq> []
           then Some (map (checkpoint_output C ex (map fst (sort_prune_scores ps)) n) dl)
           else None)"
    by simp
qed

section \<open>The capability assertions of the node enumerations\<close>

lemma dest_block_ignores_split_qkv:
  "dest_block (c\<lparr>use_split_qkv_input := b\<rparr>) = dest_block c"
  by (intro ext) (simp add: dest_block_def)

text \<open>
  C5, as the code has it: \<^verbatim>\<open>factorized_src_nodes\<close> fails with an assertion error
  when any of the four capability flags is false; \<^verbatim>\<open>factorized_dest_nodes\<close> fails
  when \<^verbatim>\<open>use_attn_result\<close>, \<^verbatim>\<open>use_attn_in\<close> or \<^verbatim>\<open>use_hook_mlp_in\<close> is false,
  and its result does not depend on \<^verbatim>\<open>use_split_qkv_input\<close>, whose assertion is
  commented out there.
\<close>

theorem factorized_nodes_assertions:
  "((\<not> use_attn_result (cfg (wrapped_model model)) \<or> \<not> use_attn_in (cfg (wrapped_model model))
      \<or> \<not> use_split_qkv_input (cfg (wrapped_model model))
      \<or> \<not> use_hook_mlp_in (cfg (wrapped_model model)))
     \<longrightarrow> factorized_src_nodes model = Inl AssertionError)
   \<and> ((\<not> use_attn_result (cfg (wrapped_model model)) \<or> \<not> use_attn_in (cfg (wrapped_model model))
      \<or> \<not> use_hook_mlp_in (cfg (wrapped_model model)))
     \<longrightarrow> factorized_dest_nodes model = Inl AssertionError)
   \<and> factorized_dest_nodes
         (model\<lparr>wrapped_model := (wrapped_model model)
            \<lparr>cfg := (cfg (wrapped_model model))\<lparr>use_split_qkv_input := b\<rparr>\<rparr>\<rparr>)
       = factorized_dest_nodes model"
  by (simp add: factorized_src_nodes_def src_enumeration_def factorized_dest_nodes_def
      dest_enumeration_def cfg_property_def dest_block_ignores_split_qkv Let_def
      cong: sum.case_cong)

text \<open>
  With split-QKV input disabled and the other three flags enabled, the destination
  enumeration of a one-block, one-head model does not fail.
\<close>

theorem dest_nodes_without_split_qkv_counterexample:
  "factorized_dest_nodes
     \<lparr>wrapped_model =
        \<lparr>cfg = \<lparr>n_layers = 1, n_heads = 1, use_attn_result = True, use_attn_in = True,
                use_split_qkv_input = False, use_hook_mlp_in = True, parallel_attn_mlp = False\<rparr>,
         blocks = [\<lparr>mlp_hook_post = HookPoint,
                    hook_mlp_out = Autoencoder \<lparr>n_latents = 1, latent_total_act = Vec [1]\<rparr>\<rparr>]\<rparr>,
      sparse_autoencoders = [\<lparr>n_latents = 1, latent_total_act = Vec [1]\<rparr>]\<rparr>
   \<noteq> Inl AssertionError"
  by (simp add: factorized_dest_nodes_def dest_enumeration_def cfg_property_def dest_block_def
      Let_def add_node_def split: sum.splits)

text \<open>A model without \<^verbatim>\<open>use_hook_mlp_in\<close>: both enumerations fail.\<close>

theorem factorized_nodes_assertions_witness:
  "factorized_src_nodes
     \<lparr>wrapped_model =
        \<lparr>cfg = \<lparr>n_layers = 1, n_heads = 1, use_attn_result = True, use_attn_in = True,
                use_split_qkv_input = True, use_hook_mlp_in = False, parallel_attn_mlp = False\<rparr>,
         blocks = []\<rparr>,
      sparse_autoencoders = []\<rparr> = Inl AssertionError
   \<and> factorized_dest_nodes
     \<lparr>wrapped_model =
        \<lparr>cfg = \<lparr>n_layers = 1, n_heads = 1, use_attn_result = True, use_attn_in = True,
                use_split_qkv_input = True, use_hook_mlp_in = False, parallel_attn_mlp = False\<rparr>,
         blocks = []\<rparr>,
      sparse_autoencoders = []\<rparr> = Inl AssertionError"
  using factorized_nodes_assertions [of
     "\<lparr>wrapped_model =
        \<lparr>cfg = \<lparr>n_layers = 1, n_heads = 1, use_attn_result = True, use_attn_in = True,
                use_split_qkv_input = True, use_hook_mlp_in = False, parallel_attn_mlp = False\<rparr>,
         blocks = []\<rparr>,
      sparse_autoencoders = []\<rparr>" True]
  by simp

section \<open>Size and indices of the node sets\<close>

text \<open>
  C1: for a valid configuration with \<open>n_layers\<close> layers, \<open>n_heads\<close> heads and
  \<open>latents_per_layer\<close> retained latents per layer, both enumerations succeed,
  \<^verbatim>\<open>factorized_src_nodes\<close> returns a set of exactly
  \<open>1 + n_layers * (n_heads + latents_per_layer)\<close> nodes and \<^verbatim>\<open>factorized_dest_nodes\<close>
  one of exactly \<open>n_layers * (n_heads + 1) + 1\<close> nodes, and in each the indices are
  strictly increasing in enumeration order and unique within the set.
\<close>

theorem factorized_nodes_count_and_indices:
  assumes "valid_configuration model latents_per_layer"
  shows "\<exists>srcs dests.
      src_enumeration model = Inr srcs \<and> factorized_src_nodes model = Inr (set srcs)
    \<and> dest_enumeration model = Inr dests \<and> factorized_dest_nodes model = Inr (set dests)
    \<and> card (set srcs) =
        1 + n_layers (cfg (wrapped_model model))
            * (n_heads (cfg (wrapped_model model)) + latents_per_layer)
    \<and> card (set dests) =
        n_layers (cfg (wrapped_model model)) * (n_heads (cfg (wrapped_model model)) + 1) + 1
    \<and> sorted_wrt (<) (map idx srcs) \<and> inj_on idx (set srcs)
    \<and> sorted_wrt (<) (map idx dests) \<and> inj_on idx (set dests)"
proof -
  let ?c = "cfg (wrapped_model model)"
  from assms have flags: "use_attn_result ?c" "use_attn_in ?c" "use_split_qkv_input ?c"
    "use_hook_mlp_in ?c"
    by (simp_all add: valid_configuration_def Let_def)
  let ?s1 = "add_node (\<lparr>layers = 0, idxs = 0, nodes = []\<rparr>\<lparr>layers := Suc 0\<rparr>) (resid_start 0)"
  have s1: "map idx (nodes ?s1) = [0..<idxs ?s1]" by (simp add: add_node_def)
  from src_loop_valid [OF assms order_refl s1]
  obtain st where st: "for_each (src_block (wrapped_model model)) [0..<n_layers ?c] ?s1 = Inr st"
    and sti: "idxs st = idxs ?s1 + n_layers ?c * (n_heads ?c + latents_per_layer)"
    and stm: "map idx (nodes st) = [0..<idxs st]"
    by blast
  have src: "src_enumeration model = Inr (nodes st)"
    using flags st by (simp add: src_enumeration_def cfg_property_def Let_def)
  have srcm: "map idx (nodes st) = [0..<1 + n_layers ?c * (n_heads ?c + latents_per_layer)]"
    using stm sti by (simp add: add_node_def)
  let ?d0 = "\<lparr>layers = 1, idxs = 0, nodes = []\<rparr>"
  have d0: "map idx (nodes ?d0) = [0..<idxs ?d0]" by simp
  from dest_loop [OF d0, of ?c "n_layers ?c"]
  obtain dt where dt: "for_each (dest_block ?c) [0..<n_layers ?c] ?d0 = Inr dt"
    and dti: "idxs dt = idxs ?d0 + n_layers ?c * (n_heads ?c + 1)"
    and dtm: "map idx (nodes dt) = [0..<idxs dt]"
    by blast
  let ?dests = "nodes (add_node (dt\<lparr>layers := Suc (layers dt)\<rparr>)
                         (resid_end (n_layers ?c) (layers dt)))"
  have dest: "dest_enumeration model = Inr ?dests"
    using flags dt by (simp add: dest_enumeration_def cfg_property_def Let_def)
  have destm: "map idx ?dests = [0..<n_layers ?c * (n_heads ?c + 1) + 1]"
    using dtm dti by (simp add: add_node_def)
  show ?thesis
  proof (intro exI conjI)
    show "src_enumeration model = Inr (nodes st)" by (rule src)
    show "factorized_src_nodes model = Inr (set (nodes st))"
      by (simp add: factorized_src_nodes_def src)
    show "dest_enumeration model = Inr ?dests" by (rule dest)
    show "factorized_dest_nodes model = Inr (set ?dests)"
      by (simp only: factorized_dest_nodes_def dest sum.case)
    show "card (set (nodes st)) = 1 + n_layers ?c * (n_heads ?c + latents_per_layer)"
      by (rule idx_upt_facts(1) [OF srcm])
    show "card (set ?dests) = n_layers ?c * (n_heads ?c + 1) + 1"
      by (rule idx_upt_facts(1) [OF destm])
    show "sorted_wrt (<) (map idx (nodes st))" by (rule idx_upt_facts(2) [OF srcm])
    show "inj_on idx (set (nodes st))" by (rule idx_upt_facts(3) [OF srcm])
    show "sorted_wrt (<) (map idx ?dests)" by (rule idx_upt_facts(2) [OF destm])
    show "inj_on idx (set ?dests)" by (rule idx_upt_facts(3) [OF destm])
  qed
qed

text \<open>A two-layer, two-head model with three latents per layer: 11 sources, 7 destinations.\<close>

theorem factorized_nodes_count_and_indices_witness:
  "valid_configuration
     \<lparr>wrapped_model =
        \<lparr>cfg = \<lparr>n_layers = 2, n_heads = 2, use_attn_result = True, use_attn_in = True,
                use_split_qkv_input = True, use_hook_mlp_in = True, parallel_attn_mlp = False\<rparr>,
         blocks = [\<lparr>mlp_hook_post = HookPoint,
                    hook_mlp_out = Autoencoder \<lparr>n_latents = 3, latent_total_act = Vec [1, 2, 3]\<rparr>\<rparr>,
                   \<lparr>mlp_hook_post = HookPoint,
                    hook_mlp_out = Autoencoder \<lparr>n_latents = 3, latent_total_act = Vec [4, 5, 6]\<rparr>\<rparr>]\<rparr>,
      sparse_autoencoders = []\<rparr> 3
   \<and> (\<exists>srcs dests.
        factorized_src_nodes
          \<lparr>wrapped_model =
            \<lparr>cfg = \<lparr>n_layers = 2, n_heads = 2, use_attn_result = True, use_attn_in = True,
                use_split_qkv_input = True, use_hook_mlp_in = True, parallel_attn_mlp = False\<rparr>,
             blocks = [\<lparr>mlp_hook_post = HookPoint,
                    hook_mlp_out = Autoencoder \<lparr>n_latents = 3, latent_total_act = Vec [1, 2, 3]\<rparr>\<rparr>,
                   \<lparr>mlp_hook_post = HookPoint,
                    hook_mlp_out = Autoencoder \<lparr>n_latents = 3, latent_total_act = Vec [4, 5, 6]\<rparr>\<rparr>]\<rparr>,
           sparse_autoencoders = []\<rparr> = Inr (set srcs)
      \<and> factorized_dest_nodes
          \<lparr>wrapped_model =
            \<lparr>cfg = \<lparr>n_layers = 2, n_heads = 2, use_attn_result = True, use_attn_in = True,
                use_split_qkv_input = True, use_hook_mlp_in = True, parallel_attn_mlp = False\<rparr>,
             blocks = [\<lparr>mlp_hook_post = HookPoint,
                    hook_mlp_out = Autoencoder \<lparr>n_latents = 3, latent_total_act = Vec [1, 2, 3]\<rparr>\<rparr>,
                   \<lparr>mlp_hook_post = HookPoint,
                    hook_mlp_out = Autoencoder \<lparr>n_latents = 3, latent_total_act = Vec [4, 5, 6]\<rparr>\<rparr>]\<rparr>,
           sparse_autoencoders = []\<rparr> = Inr (set dests)
      \<and> card (set srcs) = 11 \<and> card (set dests) = 7
      \<and> sorted_wrt (<) (map idx srcs) \<and> sorted_wrt (<) (map idx dests))"
proof -
  let ?M = "\<lparr>wrapped_model =
            \<lparr>cfg = \<lparr>n_layers = 2, n_heads = 2, use_attn_result = True, use_attn_in = True,
                use_split_qkv_input = True, use_hook_mlp_in = True, parallel_attn_mlp = False\<rparr>,
             blocks = [\<lparr>mlp_hook_post = HookPoint,
                    hook_mlp_out = Autoencoder \<lparr>n_latents = 3, latent_total_act = Vec [1, 2, 3]\<rparr>\<rparr>,
                   \<lparr>mlp_hook_post = HookPoint,
                    hook_mlp_out = Autoencoder \<lparr>n_latents = 3, latent_total_act = Vec [4, 5, 6]\<rparr>\<rparr>]\<rparr>,
           sparse_autoencoders = []\<rparr>"
  have v: "valid_configuration ?M 3"
    by (simp add: valid_configuration_def)
  from factorized_nodes_count_and_indices [OF v]
  obtain srcs dests where "factorized_src_nodes ?M = Inr (set srcs)"
    and "factorized_dest_nodes ?M = Inr (set dests)"
    and "card (set srcs) = 11" and "card (set dests) = 7"
    and "sorted_wrt (<) (map idx srcs)" and "sorted_wrt (<) (map idx dests)"
    by auto
  with v show ?thesis by blast
qed

section \<open>Layer indices\<close>

text \<open>
  C6: in both enumerations the layer indices are non-decreasing in enumeration order.
  For an attention node and an MLP (latent or MLP-input) node of the same block, told
  by their module names, the two layer indices are equal if and only if
  \<^verbatim>\<open>parallel_attn_mlp\<close> is true, and otherwise the MLP node has the next layer index.
\<close>

theorem layers_non_decreasing:
  "(src_enumeration model = Inr srcs \<longrightarrow>
      sorted (map layer srcs)
      \<and> (\<forall>a\<in>set srcs. \<forall>m\<in>set srcs. \<forall>b.
            module_name_attr a = ''blocks.'' @ str_nat b @ ''.attn.hook_result''
            \<and> module_name_attr m = ''blocks.'' @ str_nat b @ ''.hook_mlp_out.latent_outs''
            \<longrightarrow> (layer m = layer a \<longleftrightarrow> parallel_attn_mlp (cfg (wrapped_model model)))
                \<and> (\<not> parallel_attn_mlp (cfg (wrapped_model model)) \<longrightarrow> layer m = Suc (layer a))))
   \<and> (dest_enumeration model = Inr dests \<longrightarrow>
      sorted (map layer dests)
      \<and> (\<forall>a\<in>set dests. \<forall>m\<in>set dests. \<forall>b.
            module_name_attr a = ''blocks.'' @ str_nat b @ ''.hook_attn_in''
            \<and> module_name_attr m = ''blocks.'' @ str_nat b @ ''.hook_mlp_in''
            \<longrightarrow> (layer m = layer a \<longleftrightarrow> parallel_attn_mlp (cfg (wrapped_model model)))
                \<and> (\<not> parallel_attn_mlp (cfg (wrapped_model model)) \<longrightarrow> layer m = Suc (layer a))))"
proof (intro conjI impI)
  assume "src_enumeration model = Inr srcs"
  then obtain l where inv: "layer_inv (\<lambda>b. ''blocks.'' @ str_nat b @ ''.attn.hook_result'')
           (\<lambda>b. ''blocks.'' @ str_nat b @ ''.hook_mlp_out.latent_outs'')
           (parallel_attn_mlp (cfg (wrapped_model model)))
           (n_layers (cfg (wrapped_model model))) l srcs"
    using src_enumeration_layer_inv by blast
  then show "sorted (map layer srcs)" by (simp add: layer_inv_def)
  from inv have rel: "\<forall>a\<in>set srcs. \<forall>m\<in>set srcs. \<forall>b'.
           module_name_attr a = ''blocks.'' @ str_nat b' @ ''.attn.hook_result''
           \<and> module_name_attr m = ''blocks.'' @ str_nat b' @ ''.hook_mlp_out.latent_outs''
           \<longrightarrow> layer m = (if parallel_attn_mlp (cfg (wrapped_model model)) then layer a
                          else Suc (layer a))"
    by (simp add: layer_inv_def)
  show "\<forall>a\<in>set srcs. \<forall>m\<in>set srcs. \<forall>b.
            module_name_attr a = ''blocks.'' @ str_nat b @ ''.attn.hook_result''
            \<and> module_name_attr m = ''blocks.'' @ str_nat b @ ''.hook_mlp_out.latent_outs''
            \<longrightarrow> (layer m = layer a \<longleftrightarrow> parallel_attn_mlp (cfg (wrapped_model model)))
                \<and> (\<not> parallel_attn_mlp (cfg (wrapped_model model)) \<longrightarrow> layer m = Suc (layer a))"
  proof (intro ballI allI impI)
    fix a m b
    assume "a \<in> set srcs" "m \<in> set srcs"
      and "module_name_attr a = ''blocks.'' @ str_nat b @ ''.attn.hook_result''
            \<and> module_name_attr m = ''blocks.'' @ str_nat b @ ''.hook_mlp_out.latent_outs''"
    with rel have "layer m = (if parallel_attn_mlp (cfg (wrapped_model model)) then layer a
                          else Suc (layer a))"
      by blast
    then show "(layer m = layer a \<longleftrightarrow> parallel_attn_mlp (cfg (wrapped_model model)))
                \<and> (\<not> parallel_attn_mlp (cfg (wrapped_model model)) \<longrightarrow> layer m = Suc (layer a))"
      by (simp split: if_splits)
  qed
next
  assume "dest_enumeration model = Inr dests"
  then obtain l where inv: "layer_inv (\<lambda>b. ''blocks.'' @ str_nat b @ ''.hook_attn_in'')
           (\<lambda>b. ''blocks.'' @ str_nat b @ ''.hook_mlp_in'')
           (parallel_attn_mlp (cfg (wrapped_model model)))
           (n_layers (cfg (wrapped_model model))) l dests"
    using dest_enumeration_layer_inv by blast
  then show "sorted (map layer dests)" by (simp add: layer_inv_def)
  from inv have rel: "\<forall>a\<in>set dests. \<forall>m\<in>set dests. \<forall>b'.
           module_name_attr a = ''blocks.'' @ str_nat b' @ ''.hook_attn_in''
           \<and> module_name_attr m = ''blocks.'' @ str_nat b' @ ''.hook_mlp_in''
           \<longrightarrow> layer m = (if parallel_attn_mlp (cfg (wrapped_model model)) then layer a
                          else Suc (layer a))"
    by (simp add: layer_inv_def)
  show "\<forall>a\<in>set dests. \<forall>m\<in>set dests. \<forall>b.
            module_name_attr a = ''blocks.'' @ str_nat b @ ''.hook_attn_in''
            \<and> module_name_attr m = ''blocks.'' @ str_nat b @ ''.hook_mlp_in''
            \<longrightarrow> (layer m = layer a \<longleftrightarrow> parallel_attn_mlp (cfg (wrapped_model model)))
                \<and> (\<not> parallel_attn_mlp (cfg (wrapped_model model)) \<longrightarrow> layer m = Suc (layer a))"
  proof (intro ballI allI impI)
    fix a m b
    assume "a \<in> set dests" "m \<in> set dests"
      and "module_name_attr a = ''blocks.'' @ str_nat b @ ''.hook_attn_in''
            \<and> module_name_attr m = ''blocks.'' @ str_nat b @ ''.hook_mlp_in''"
    with rel have "layer m = (if parallel_attn_mlp (cfg (wrapped_model model)) then layer a
                          else Suc (layer a))"
      by blast
    then show "(layer m = layer a \<longleftrightarrow> parallel_attn_mlp (cfg (wrapped_model model)))
                \<and> (\<not> parallel_attn_mlp (cfg (wrapped_model model)) \<longrightarrow> layer m = Suc (layer a))"
      by (simp split: if_splits)
  qed
qed

text \<open>A sequential one-block model: the enumerations and their layers, evaluated.\<close>

theorem layers_non_decreasing_witness:
  "src_enumeration
     \<lparr>wrapped_model =
        \<lparr>cfg = \<lparr>n_layers = 1, n_heads = 1, use_attn_result = True, use_attn_in = True,
                use_split_qkv_input = True, use_hook_mlp_in = True, parallel_attn_mlp = False\<rparr>,
         blocks = [\<lparr>mlp_hook_post = HookPoint,
                    hook_mlp_out = Autoencoder \<lparr>n_latents = 1, latent_total_act = Vec [1]\<rparr>\<rparr>]\<rparr>,
      sparse_autoencoders = []\<rparr>
   = Inr [resid_start 0 0, attn_src_node 0 0 1 1, latent_src_node 0 0 2 2]
   \<and> dest_enumeration
     \<lparr>wrapped_model =
        \<lparr>cfg = \<lparr>n_layers = 1, n_heads = 1, use_attn_result = True, use_attn_in = True,
                use_split_qkv_input = True, use_hook_mlp_in = True, parallel_attn_mlp = False\<rparr>,
         blocks = [\<lparr>mlp_hook_post = HookPoint,
                    hook_mlp_out = Autoencoder \<lparr>n_latents = 1, latent_total_act = Vec [1]\<rparr>\<rparr>]\<rparr>,
      sparse_autoencoders = []\<rparr>
   = Inr [attn_dest_node 0 0 1 0, mlp_dest_node 0 2 1, resid_end 1 3 2]
   \<and> sorted (map layer [resid_start 0 0, attn_src_node 0 0 1 1, latent_src_node 0 0 2 2])
   \<and> sorted (map layer [attn_dest_node 0 0 1 0, mlp_dest_node 0 2 1, resid_end 1 3 2])
   \<and> layer (latent_src_node 0 0 2 2) = Suc (layer (attn_src_node 0 0 1 1))
   \<and> layer (mlp_dest_node 0 2 1) = Suc (layer (attn_dest_node 0 0 1 0))"
proof -
  let ?M = "\<lparr>wrapped_model =
        \<lparr>cfg = \<lparr>n_layers = 1, n_heads = 1, use_attn_result = True, use_attn_in = True,
                use_split_qkv_input = True, use_hook_mlp_in = True, parallel_attn_mlp = False\<rparr>,
         blocks = [\<lparr>mlp_hook_post = HookPoint,
                    hook_mlp_out = Autoencoder \<lparr>n_latents = 1, latent_total_act = Vec [1]\<rparr>\<rparr>]\<rparr>,
      sparse_autoencoders = []\<rparr>"
  let ?srcs = "[resid_start 0 0, attn_src_node 0 0 1 1, latent_src_node 0 0 2 2]"
  let ?dests = "[attn_dest_node 0 0 1 0, mlp_dest_node 0 2 1, resid_end 1 3 2]"
  have e1: "src_enumeration ?M = Inr ?srcs"
    by (simp add: src_enumeration_def cfg_property_def src_block_def add_node_def Let_def
        numeral_2_eq_2)
  have e2: "dest_enumeration ?M = Inr ?dests"
    by (simp add: dest_enumeration_def cfg_property_def dest_block_def add_node_def Let_def
        numeral_2_eq_2 numeral_3_eq_3)
  have n1: "module_name_attr (attn_src_node 0 0 1 1) = ''blocks.'' @ str_nat 0 @ ''.attn.hook_result''
        \<and> module_name_attr (latent_src_node 0 0 2 2)
            = ''blocks.'' @ str_nat 0 @ ''.hook_mlp_out.latent_outs''"
    by (simp add: attn_src_node_def latent_src_node_def)
  have n2: "module_name_attr (attn_dest_node 0 0 1 0) = ''blocks.'' @ str_nat 0 @ ''.hook_attn_in''
        \<and> module_name_attr (mlp_dest_node 0 2 1) = ''blocks.'' @ str_nat 0 @ ''.hook_mlp_in''"
    by (simp add: attn_dest_node_def mlp_dest_node_def)
  note t = layers_non_decreasing [of ?M ?srcs ?dests]
  from t e1 have s1: "sorted (map layer ?srcs)" by blast
  from t e2 have s2: "sorted (map layer ?dests)" by blast
  from t e1 n1 have r1: "layer (latent_src_node 0 0 2 2) = Suc (layer (attn_src_node 0 0 1 1))"
    by simp
  from t e2 n2 have r2: "layer (mlp_dest_node 0 2 1) = Suc (layer (attn_dest_node 0 0 1 0))"
    by simp
  from e1 e2 s1 s2 r1 r2 show ?thesis by blast
qed

section \<open>The retention cap of the latent pruning\<close>

text \<open>
  C3 says that with \<^verbatim>\<open>max_latents = None\<close> every autoencoder retains its own count of
  activated latents. The loop assigns \<^verbatim>\<open>max_latents = max_latents or activated_count\<close>,
  so the first nonzero count becomes the cap of every later autoencoder. Here the dataset
  activates one latent of the first autoencoder and three of the second: both end with
  one latent.
\<close>

theorem prune_latents_cap_carried_over:
  "prune_latents_with_dataset reset_activated_latents
     (\<lambda>saes. [\<lparr>n_latents = 2, latent_total_act = Vec [1, 0]\<rparr>,
              \<lparr>n_latents = 4, latent_total_act = Vec [3, 0, 2, 1]\<rparr>])
     \<lparr>wrapped_model = m,
      sparse_autoencoders = [\<lparr>n_latents = 2, latent_total_act = Vec [0, 0]\<rparr>,
                             \<lparr>n_latents = 4, latent_total_act = Vec [0, 0, 0, 0]\<rparr>]\<rparr>
     None
   = Inr (\<lparr>wrapped_model = m,
           sparse_autoencoders = [\<lparr>n_latents = 1, latent_total_act = Vec [1]\<rparr>,
                                  \<lparr>n_latents = 1, latent_total_act = Vec [3]\<rparr>]\<rparr>,
          [ActInt 1, ActInt 3], [1, 1])"
  by (simp add: prune_latents_with_dataset_def prune_autoencoder_def activated_latents_def
      count_positive_def activated_count_of_def py_or_def idxs_to_keep_of_def slice_to_def
      sort_indices_descending_def prune_latents_def Let_def upt_rec)

section \<open>Installing the autoencoders\<close>

text \<open>
  C7 says that for both capture points the loaded autoencoder replaces the block's hook.
  With \<^verbatim>\<open>sae_input = "mlp_post_act"\<close> the code assigns \<^verbatim>\<open>sae_input\<close>, the string, to
  \<^verbatim>\<open>hook_post\<close>: on a one-block model the hook becomes the string when the assignment
  stores its value, and the call fails with a type error when it is the module's
  assignment. In neither case is the autoencoder installed.
\<close>

theorem autoencoder_model_mlp_post_act:
  "autoencoder_model load_autoencoder object_setattr
     \<lparr>cfg = c\<lparr>n_layers := 1\<rparr>,
      blocks = [\<lparr>mlp_hook_post = HookPoint, hook_mlp_out = HookPoint\<rparr>]\<rparr>
     ''mlp_post_act'' pythia_size new_instance
   = Inr \<lparr>wrapped_model =
            \<lparr>cfg = c\<lparr>n_layers := 1\<rparr>,
             blocks = [\<lparr>mlp_hook_post = StrValue ''mlp_post_act'', hook_mlp_out = HookPoint\<rparr>]\<rparr>,
          sparse_autoencoders =
            [load_autoencoder HookPoint
               \<lparr>cfg = c\<lparr>n_layers := 1\<rparr>,
                blocks = [\<lparr>mlp_hook_post = HookPoint, hook_mlp_out = HookPoint\<rparr>]\<rparr>
               0 ''mlp_post_act'' pythia_size]\<rparr>
   \<and> autoencoder_model load_autoencoder module_setattr
     \<lparr>cfg = c\<lparr>n_layers := 1\<rparr>,
      blocks = [\<lparr>mlp_hook_post = HookPoint, hook_mlp_out = HookPoint\<rparr>]\<rparr>
     ''mlp_post_act'' pythia_size new_instance
   = Inl TypeError"
  by (simp add: autoencoder_model_def install_autoencoder_def object_setattr_def
      module_setattr_def deepcopy_def init_def Let_def)

section \<open>Checkpoints larger than the number of edges\<close>

text \<open>
  C8: a checkpoint \<open>k\<close> larger than the number of edges in \<^verbatim>\<open>prune_scores\<close> changes
  nothing: \<^verbatim>\<open>run_pruned\<close> returns what it returns without \<open>k\<close> among the requested
  checkpoints, be it a failure or the outputs of the other checkpoints, and a returned
  dictionary has no entry for \<open>k\<close>.
\<close>

theorem oversized_checkpoint_is_ignored:
  assumes "length prune_scores < k"
  shows "run_pruned C model data_loader experiment_type test_edge_counts prune_scores render_graph
         = run_pruned C model data_loader experiment_type (removeAll k test_edge_counts)
             prune_scores render_graph
       \<and> (\<forall>pruned_outs model'.
            run_pruned C model data_loader experiment_type test_edge_counts prune_scores
              render_graph = Inr (pruned_outs, model')
            \<longrightarrow> pruned_outs k = None)"
proof (intro conjI allI impI)
  from assms have lt: "length (sort_prune_scores prune_scores) < k" by simp
  have "process_batch C experiment_type (removeAll k test_edge_counts)
          (sort_prune_scores prune_scores) render_graph
        = process_batch C experiment_type test_edge_counts
          (sort_prune_scores prune_scores) render_graph"
    by (intro ext) (rule process_batch_removeAll [OF lt])
  then show "run_pruned C model data_loader experiment_type test_edge_counts prune_scores
           render_graph
         = run_pruned C model data_loader experiment_type (removeAll k test_edge_counts)
             prune_scores render_graph"
    by (simp add: run_pruned_def)
next
  fix pruned_outs model'
  assume "run_pruned C model data_loader experiment_type test_edge_counts prune_scores
            render_graph = Inr (pruned_outs, model')"
  then have loop: "for_each (process_batch C experiment_type test_edge_counts
                     (sort_prune_scores prune_scores) render_graph)
                data_loader (log_event SortPruneScores model, Map.empty) = Inr (model', pruned_outs)"
    by (auto simp: run_pruned_def Let_def split: sum.splits)
  from assms have lt: "length (sort_prune_scores prune_scores) < k" by simp
  have "snd (model', pruned_outs) k = None"
  proof (rule for_each_invariant [OF loop, where P = "\<lambda>st. snd st k = None"])
    show "snd (log_event SortPruneScores model, Map.empty) k = None" by simp
  next
    fix s x s'
    assume "snd s k = None"
      and "process_batch C experiment_type test_edge_counts
             (sort_prune_scores prune_scores) render_graph s x = Inr s'"
    with process_batch_beyond [OF lt] show "snd s' k = None" by metis
  qed
  then show "pruned_outs k = None" by simp
qed

text \<open>Three edges and the checkpoints 0, 2 and 5.\<close>

theorem oversized_checkpoint_is_ignored_witness:
  "length [(0::nat, 1::real), (1, 3), (2, 2)] < 5
   \<and> run_pruned demo_collaborators demo_model [\<lparr>clean = 7, corrupt = 8\<rparr>]
       \<lparr>input_type = CLEAN, patch_type = CORRUPT\<rparr> [0, 2, 5] [(0, 1), (1, 3), (2, 2)] False
     = run_pruned demo_collaborators demo_model [\<lparr>clean = 7, corrupt = 8\<rparr>]
       \<lparr>input_type = CLEAN, patch_type = CORRUPT\<rparr> (removeAll 5 [0, 2, 5])
       [(0, 1), (1, 3), (2, 2)] False
   \<and> [0 \<mapsto> [[7]], 2 \<mapsto> [[7, 0, 1, 1::nat]]] (5::nat) = None"
proof -
  have l: "length [(0::nat, 1::real), (1, 3), (2, 2)] < 5" by simp
  note t = oversized_checkpoint_is_ignored [OF l, of demo_collaborators demo_model
      "[\<lparr>clean = 7, corrupt = 8\<rparr>]" "\<lparr>input_type = CLEAN, patch_type = CORRUPT\<rparr>"
      "[0, 2, 5]" False]
  from t have a: "run_pruned demo_collaborators demo_model [\<lparr>clean = 7, corrupt = 8\<rparr>]
       \<lparr>input_type = CLEAN, patch_type = CORRUPT\<rparr> [0, 2, 5] [(0, 1), (1, 3), (2, 2)] False
     = run_pruned demo_collaborators demo_model [\<lparr>clean = 7, corrupt = 8\<rparr>]
       \<lparr>input_type = CLEAN, patch_type = CORRUPT\<rparr> (removeAll 5 [0, 2, 5])
       [(0, 1), (1, 3), (2, 2)] False"
    by blast
  from t demo_run have b: "[0 \<mapsto> [[7]], 2 \<mapsto> [[7, 0, 1, 1::nat]]] (5::nat) = None"
    by blast
  from l a b show ?thesis by blast
qed

section \<open>Unrecognised input and patch types\<close>

text \<open>
  C9, as the code has it: the two types are examined inside the loop over the batches.
  When the data loader yields at least one batch, an \<^verbatim>\<open>input_type\<close> other than clean
  and corrupt makes \<^verbatim>\<open>run_pruned\<close> fail with \<^verbatim>\<open>NotImplementedError\<close>, and with a
  recognised input type a \<^verbatim>\<open>patch_type\<close> other than clean, corrupt and zero makes it
  fail with an assertion error. The failure is the whole result: nothing is returned.
\<close>

theorem run_pruned_unrecognised_type:
  assumes "data_loader \<noteq> []"
  shows "(input_type experiment_type \<notin> {CLEAN, CORRUPT} \<longrightarrow>
            run_pruned C model data_loader experiment_type test_edge_counts prune_scores
              render_graph = Inl NotImplementedError)
       \<and> (input_type experiment_type \<in> {CLEAN, CORRUPT}
            \<and> patch_type experiment_type \<notin> {CLEAN, CORRUPT, ZERO} \<longrightarrow>
            run_pruned C model data_loader experiment_type test_edge_counts prune_scores
              render_graph = Inl AssertionError)"
proof -
  from assms obtain batch rest where dl: "data_loader = batch # rest"
    by (cases data_loader) auto
  have 1: "process_batch C experiment_type test_edge_counts ps render_graph st batch
             = Inl NotImplementedError"
    if "input_type experiment_type \<notin> {CLEAN, CORRUPT}" for ps st
    using that by (cases "input_type experiment_type")
      (simp_all add: process_batch_def batch_input_of_def)
  have 2: "process_batch C experiment_type test_edge_counts ps render_graph st batch
             = Inl AssertionError"
    if "input_type experiment_type \<in> {CLEAN, CORRUPT}"
      and "patch_type experiment_type \<notin> {CLEAN, CORRUPT, ZERO}" for ps st
    using that by (cases "input_type experiment_type"; cases "patch_type experiment_type")
      (simp_all add: process_batch_def batch_input_of_def patch_outs_of_def Let_def)
  show ?thesis
    by (simp add: run_pruned_def dl 1 2 Let_def)
qed

text \<open>
  With no batch to process nothing is examined, and the call returns the empty
  dictionary whatever the two types are.
\<close>

theorem run_pruned_empty_loader_counterexample:
  "run_pruned demo_collaborators demo_model []
     \<lparr>input_type = ZERO, patch_type = OtherActType\<rparr> [0, 1] [(0, 1)] False
   = Inr (Map.empty, log_event SortPruneScores demo_model)"
  by (simp add: run_pruned_def)

text \<open>One batch, with an unrecognised input type and with an unrecognised patch type.\<close>

theorem run_pruned_unrecognised_type_witness:
  "[\<lparr>clean = 7, corrupt = 8\<rparr>] \<noteq> ([] :: nat PromptPairBatch list)
   \<and> run_pruned demo_collaborators demo_model [\<lparr>clean = 7, corrupt = 8\<rparr>]
       \<lparr>input_type = ZERO, patch_type = CLEAN\<rparr> [0, 1] [(0, 1)] False
     = Inl NotImplementedError
   \<and> run_pruned demo_collaborators demo_model [\<lparr>clean = 7, corrupt = 8\<rparr>]
       \<lparr>input_type = CORRUPT, patch_type = OtherActType\<rparr> [0, 1] [(0, 1)] False
     = Inl AssertionError"
proof -
  have ne: "[\<lparr>clean = 7, corrupt = 8\<rparr>] \<noteq> ([] :: nat PromptPairBatch list)" by simp
  from run_pruned_unrecognised_type [OF ne, of "\<lparr>input_type = ZERO, patch_type = CLEAN\<rparr>"
      demo_collaborators demo_model "[0, 1]" "[(0, 1)]" False]
  have a: "run_pruned demo_collaborators demo_model [\<lparr>clean = 7, corrupt = 8\<rparr>]
       \<lparr>input_type = ZERO, patch_type = CLEAN\<rparr> [0, 1] [(0, 1)] False
     = Inl NotImplementedError"
    by simp
  from run_pruned_unrecognised_type [OF ne,
      of "\<lparr>input_type = CORRUPT, patch_type = OtherActType\<rparr>"
      demo_collaborators demo_model "[0, 1]" "[(0, 1)]" False]
  have b: "run_pruned demo_collaborators demo_model [\<lparr>clean = 7, corrupt = 8\<rparr>]
       \<lparr>input_type = CORRUPT, patch_type = OtherActType\<rparr> [0, 1] [(0, 1)] False
     = Inl AssertionError"
    by simp
  from ne a b show ?thesis by blast
qed

section \<open>Properties of the constructor\<close>

text \<open>
  C10: given a \<^verbatim>\<open>PatchableModel\<close>, the constructor stores that wrapper's inner
  \<^verbatim>\<open>wrapped_model\<close>, so forward, run\_with\_cache, add\_hook, cfg, tokenizer and the
  string conversions all act on the inner model; any other module is stored as given
  and the same operations act on it. The list of autoencoders is stored unchanged.
\<close>

theorem init_unwraps_patchable_model:
  "wrapped_model (init (PatchableModel inner) saes) = inner
   \<and> forward call (init (PatchableModel inner) saes) a = call inner a
   \<and> run_with_cache rwc (init (PatchableModel inner) saes) a = rwc inner a
   \<and> add_hook ah (init (PatchableModel inner) saes) a = ah inner a
   \<and> cfg_property c (init (PatchableModel inner) saes) = c inner
   \<and> tokenizer tk (init (PatchableModel inner) saes) = tk inner
   \<and> to_string ts (init (PatchableModel inner) saes) a = ts inner a
   \<and> str_method sm (init (PatchableModel inner) saes) = sm inner
   \<and> repr_method rm (init (PatchableModel inner) saes) = rm inner
   \<and> wrapped_model (init (OtherModule m) saes) = m
   \<and> forward call (init (OtherModule m) saes) a = call m a
   \<and> run_with_cache rwc (init (OtherModule m) saes) a = rwc m a
   \<and> add_hook ah (init (OtherModule m) saes) a = ah m a
   \<and> cfg_property c (init (OtherModule m) saes) = c m
   \<and> tokenizer tk (init (OtherModule m) saes) = tk m
   \<and> to_string ts (init (OtherModule m) saes) a = ts m a
   \<and> str_method sm (init (OtherModule m) saes) = sm m
   \<and> repr_method rm (init (OtherModule m) saes) = rm m
   \<and> sparse_autoencoders (init (PatchableModel inner) saes) = saes
   \<and> sparse_autoencoders (init (OtherModule m) saes) = saes"
  by (simp add: init_def forward_def run_with_cache_def add_hook_def cfg_property_def
      tokenizer_def to_string_def str_method_def repr_method_def)

end
